theory Spec2Isabelle
  imports Main "HOL-Library.Word"
begin

section \<open>The EthGrid contract (contracts/EthGrid.sol)\<close>

text \<open>
  A shallow embedding of the Solidity contract \<^verbatim>\<open>EthGrid\<close>. Solidity's fixed-width
  unsigned integers are words, so that \<open>+\<close> and \<open>*\<close> wrap exactly as the EVM does. A
  \<^verbatim>\<open>require\<close>, an \<^verbatim>\<open>assert\<close>, an array access out of range and a failed
  \<^verbatim>\<open>transfer\<close> all abort the call; the model returns \<open>Inl\<close> of an error that names
  the failing site (Solidity 0.4 itself reports no reason).
\<close>

subsection \<open>Machine types\<close>

type_synonym uint24 = "24 word"
type_synonym uint256 = "256 word"
type_synonym address = "160 word"

datatype error =
    BadArguments          \<comment> \<open>lines 279, 289-292: array lengths\<close>
  | BoundsError           \<comment> \<open>lines 283-287: target rectangle\<close>
  | PieceOutsideTarget    \<comment> \<open>lines 309-312\<close>
  | IncompleteTiling      \<comment> \<open>line 315\<close>
  | OverlappingPieces     \<comment> \<open>line 320\<close>
  | OwnershipMismatch     \<comment> \<open>lines 182, 186-189\<close>
  | HoleConflict          \<comment> \<open>line 200\<close>
  | NotForSale            \<comment> \<open>line 341\<close>
  | InsufficientPayment   \<comment> \<open>SafeMath.sub, lines 206 and 327\<close>
  | InsufficientFee       \<comment> \<open>line 331\<close>
  | Overflow              \<comment> \<open>SafeMath.add and SafeMath.mul\<close>
  | NoOverlap             \<comment> \<open>Geometry.computeRectOverlap\<close>
  | InvalidIndex          \<comment> \<open>array access out of range\<close>
  | TransferFailed        \<comment> \<open>address.transfer\<close>
  | UnknownRecord         \<comment> \<open>line 132\<close>
  | NotOwner              \<comment> \<open>line 133\<close>
  | NotAuthorized         \<comment> \<open>onlyOwner, line 140\<close>
  | NonPayable            \<comment> \<open>value sent to a function that is not payable\<close>

subsection \<open>SafeMath (OpenZeppelin, imported at line 5)\<close>

text \<open>
  SafeMath is a dependency of the contract (under \<^verbatim>\<open>node_modules\<close>), not one of its
  sources; its four functions are taken as OpenZeppelin publishes them. Each
  \<^verbatim>\<open>assert\<close> that fails is \<open>None\<close>.
  \<^verbatim>\<open>mul\<close>: \<^verbatim>\<open>if (a == 0) return 0; c = a * b; assert(c / a == b); return c;\<close>
  \<^verbatim>\<open>div\<close>: \<^verbatim>\<open>return a / b;\<close> (the EVM aborts on a zero divisor)
  \<^verbatim>\<open>sub\<close>: \<^verbatim>\<open>assert(b <= a); return a - b;\<close>
  \<^verbatim>\<open>add\<close>: \<^verbatim>\<open>c = a + b; assert(c >= a); return c;\<close>
\<close>

definition SafeMath_mul :: "uint256 \<Rightarrow> uint256 \<Rightarrow> uint256 option" where
  "SafeMath_mul a b =
     (if a = 0 then Some 0
      else (let c = a * b in if c div a = b then Some c else None))"

definition SafeMath_div :: "uint256 \<Rightarrow> uint256 \<Rightarrow> uint256 option" where
  "SafeMath_div a b = (if b = 0 then None else Some (a div b))"

definition SafeMath_sub :: "uint256 \<Rightarrow> uint256 \<Rightarrow> uint256 option" where
  "SafeMath_sub a b = (if b \<le> a then Some (a - b) else None)"

definition SafeMath_add :: "uint256 \<Rightarrow> uint256 \<Rightarrow> uint256 option" where
  "SafeMath_add a b = (let c = a + b in if c \<ge> a then Some c else None)"

subsection \<open>Rectangle geometry (contracts/Geometry.sol)\<close>

text \<open>
  \<^verbatim>\<open>Geometry.Rect\<close> has the fields \<^verbatim>\<open>x, y, w, h\<close>. EthGrid.sol builds a
  \<^verbatim>\<open>Rect\<close> from \<^verbatim>\<open>uint24\<close> values (lines 178, 280) and from \<^verbatim>\<open>uint256\<close>
  values (line 302) without a cast, and Solidity converts implicitly only to a wider type,
  so the fields are \<^verbatim>\<open>uint256\<close>.
\<close>

record Rect =
  r_x :: uint256
  r_y :: uint256
  r_w :: uint256
  r_h :: uint256

text \<open>
  Modelled from the spec: the bodies of \<^verbatim>\<open>Geometry.doRectanglesOverlap\<close> and
  \<^verbatim>\<open>Geometry.computeRectOverlap\<close> are not among the sources. Section 4.1, on
  overlaps: "standard axis-aligned overlap test, true iff the rectangles share positive area
  (touching edges do not count as overlap)"; on both functions: "arithmetic must detect and
  fail with Overflow rather than wrap". The arithmetic of the test is the two sums x + w and
  y + h of each rectangle. The general results below never unfold the two functions and so
  hold whatever their bodies are; only the example transactions evaluate them, on rectangles
  inside the grid.
\<close>

definition Rect_overflows :: "Rect \<Rightarrow> bool" where
  "Rect_overflows a \<longleftrightarrow>
     2 ^ 256 \<le> unat (r_x a) + unat (r_w a) \<or> 2 ^ 256 \<le> unat (r_y a) + unat (r_h a)"

text \<open>
  Modelled from the spec: \<^verbatim>\<open>Geometry.doRectanglesOverlap\<close> (see above). The
  rectangles share positive area when, on each axis, the larger of the two lower ends lies
  strictly below the smaller of the two upper ends.
\<close>

definition doRectanglesOverlap :: "Rect \<Rightarrow> Rect \<Rightarrow> error + bool" where
  "doRectanglesOverlap a b =
     (if Rect_overflows a \<or> Rect_overflows b then Inl Overflow
      else Inr (max (r_x a) (r_x b) < min (r_x a + r_w a) (r_x b + r_w b) \<and>
                max (r_y a) (r_y b) < min (r_y a + r_h a) (r_y b + r_h b)))"

text \<open>
  Modelled from the spec: the body of \<^verbatim>\<open>Geometry.computeRectOverlap\<close> is not among
  the sources. Section 4.1: "fails with NoOverlap if !overlaps(a,b); otherwise returns the
  maximal rectangle contained in both".
\<close>

definition computeRectOverlap :: "Rect \<Rightarrow> Rect \<Rightarrow> error + Rect" where
  "computeRectOverlap a b =
     (case doRectanglesOverlap a b of
        Inl err \<Rightarrow> Inl err
      | Inr ov \<Rightarrow>
          if \<not> ov then Inl NoOverlap
          else Inr \<lparr> r_x = max (r_x a) (r_x b),
                     r_y = max (r_y a) (r_y b),
                     r_w = min (r_x a + r_w a) (r_x b + r_w b) - max (r_x a) (r_x b),
                     r_h = min (r_y a + r_h a) (r_y b + r_h b) - max (r_y a) (r_y b) \<rparr>)"

subsection \<open>Contract state\<close>

record ZoneOwnership =
  z_x :: uint24
  z_y :: uint24
  z_w :: uint24
  z_h :: uint24
  z_owner :: address

record ZoneData =
  ipfsHash :: string
  url :: string

datatype event =
    AuctionUpdated uint256 uint256 address
  | PlotPurchased uint256 uint256 address
  | PlotSectionSold uint256 uint256 address address

text \<open>
  The four state variables of lines 46-54, \<^verbatim>\<open>owner\<close> of \<^verbatim>\<open>Ownable\<close>, the
  contract's ether balance, and the two traces a call leaves behind: the ether transfers
  made by the contract (\<open>sent\<close>, oldest first) and the events it emitted.
\<close>

record EthGrid =
  ownership :: "ZoneOwnership list"
  data :: "uint256 \<Rightarrow> ZoneData"
  tokenIdToAuction :: "uint256 \<Rightarrow> uint256"
  holes :: "uint256 \<Rightarrow> uint256 list"
  owner :: address
  balance :: uint256
  sent :: "(address \<times> uint256) list"
  events :: "event list"

text \<open>
  What a call sees of its transaction: \<^verbatim>\<open>msg.sender\<close>, \<^verbatim>\<open>msg.value\<close>, and
  which addresses accept a plain ether transfer (an account, or a contract whose fallback
  takes it).
\<close>

record env =
  msg_sender :: address
  msg_value :: uint256
  accepts :: "address \<Rightarrow> bool"

definition GRID_WIDTH :: uint24 where "GRID_WIDTH = 250"
definition GRID_HEIGHT :: uint24 where "GRID_HEIGHT = 250"
definition INITIAL_AUCTION_PRICE :: uint256 where "INITIAL_AUCTION_PRICE = 20000 * 1000000000"
definition FEE_IN_THOUSANDS_OF_PERCENT :: uint256 where "FEE_IN_THOUSANDS_OF_PERCENT = 1000"
definition MAXIMUM_PURCHASE_AREA :: uint256 where "MAXIMUM_PURCHASE_AREA = 1000"

text \<open>\<^verbatim>\<open>ownership[i]\<close>: the EVM aborts when \<open>i\<close> is not below the array's length.\<close>

definition ownership_at :: "EthGrid \<Rightarrow> uint256 \<Rightarrow> error + ZoneOwnership" where
  "ownership_at s i =
     (if unat i < length (ownership s) then Inr (ownership s ! unat i) else Inl InvalidIndex)"

definition rect_of_zone :: "ZoneOwnership \<Rightarrow> Rect" where
  "rect_of_zone z = \<lparr> r_x = ucast (z_x z), r_y = ucast (z_y z), r_w = ucast (z_w z), r_h = ucast (z_h z) \<rparr>"

text \<open>\<^verbatim>\<open>payable\<close>: the value sent is in the contract's balance when the body starts.\<close>

definition credit :: "env \<Rightarrow> EthGrid \<Rightarrow> EthGrid" where
  "credit e s = s\<lparr> balance := balance s + msg_value e \<rparr>"

text \<open>\<^verbatim>\<open>to.transfer(amount)\<close>: aborts unless the balance covers it and \<open>to\<close> accepts.\<close>

definition transfer :: "env \<Rightarrow> address \<Rightarrow> uint256 \<Rightarrow> EthGrid \<Rightarrow> error + EthGrid" where
  "transfer e to amount s =
     (if amount \<le> balance s \<and> accepts e to
      then Inr (s\<lparr> balance := balance s - amount, sent := sent s @ [(to, amount)] \<rparr>)
      else Inl TransferFailed)"

definition emit :: "event \<Rightarrow> EthGrid \<Rightarrow> EthGrid" where
  "emit ev s = s\<lparr> events := events s @ [ev] \<rparr>"

subsection \<open>Constructor (lines 72-80)\<close>

definition constructor :: "env \<Rightarrow> EthGrid" where
  "constructor e =
     \<lparr> ownership = [\<lparr> z_x = 0, z_y = 0, z_w = GRID_WIDTH, z_h = GRID_HEIGHT, z_owner = msg_sender e \<rparr>],
       data = (\<lambda>_. \<lparr> ipfsHash = [], url = [] \<rparr>)
                (0 := \<lparr> ipfsHash = ''Qmb51AikiN8p6JsEcCZgrV4d7C6d6uZnCmfmaT15VooUyv/img.svg'',
                         url = ''https://www.ethplot.com/'' \<rparr>),
       tokenIdToAuction = (\<lambda>_. 0)(0 := INITIAL_AUCTION_PRICE),
       holes = (\<lambda>_. [])(0 := []),
       owner = msg_sender e,
       balance = msg_value e,
       sent = [],
       events = [] \<rparr>"

subsection \<open>getPriceOfAuctionedZone (lines 338-344)\<close>

definition getPriceOfAuctionedZone :: "EthGrid \<Rightarrow> Rect \<Rightarrow> uint256 \<Rightarrow> error + uint256" where
  "getPriceOfAuctionedZone s rectToPurchase auctionedZoneId =
     (let auctionPricePerPixel = tokenIdToAuction s auctionedZoneId in
      if \<not> auctionPricePerPixel > 0 then Inl NotForSale
      else (case SafeMath_mul (r_w rectToPurchase) (r_h rectToPurchase) of
              None \<Rightarrow> Inl Overflow
            | Some a \<Rightarrow>
                (case SafeMath_mul a auctionPricePerPixel of
                   None \<Rightarrow> Inl Overflow
                 | Some p \<Rightarrow> Inr p)))"

subsection \<open>distributePurchaseFunds (lines 169-276)\<close>

text \<open>The loop of lines 192-201 over \<^verbatim>\<open>holes[ownershipIndex]\<close>.\<close>

fun check_holes :: "EthGrid \<Rightarrow> Rect \<Rightarrow> uint256 list \<Rightarrow> error + unit" where
  "check_holes s r [] = Inr ()"
| "check_holes s r (hole # rest) =
     (case ownership_at s hole of
        Inl err \<Rightarrow> Inl err
      | Inr holeOwnership \<Rightarrow>
          (case doRectanglesOverlap r (rect_of_zone holeOwnership) of
             Inl err \<Rightarrow> Inl err
           | Inr ov \<Rightarrow> if ov then Inl HoleConflict else check_holes s r rest))"

text \<open>
  Lines 175-205 of the loop body, for the piece \<open>r = rects[areaIndicesIndex]\<close> and
  \<open>ownershipIndex = areaIndices[areaIndicesIndex]\<close>: the checks against the owner's
  rectangle and holes, then the price of the section.
\<close>

definition check_section :: "EthGrid \<Rightarrow> Rect \<Rightarrow> Rect \<Rightarrow> uint256 \<Rightarrow> error + uint256" where
  "check_section s rectToPurchase r ownershipIndex =
     (case ownership_at s ownershipIndex of
        Inl err \<Rightarrow> Inl err
      | Inr z \<Rightarrow>
     (let currentOwnershipRect = rect_of_zone z in
      case doRectanglesOverlap rectToPurchase currentOwnershipRect of
        Inl err \<Rightarrow> Inl err
      | Inr ov \<Rightarrow>
     if \<not> ov then Inl OwnershipMismatch else
     (case computeRectOverlap rectToPurchase currentOwnershipRect of
        Inl err \<Rightarrow> Inl err
      | Inr overlap \<Rightarrow>
     if \<not> r_x r \<ge> r_x overlap then Inl OwnershipMismatch else
     if \<not> r_y r \<ge> r_y overlap then Inl OwnershipMismatch else
     if \<not> r_x r + r_w r \<le> r_x overlap + r_w overlap then Inl OwnershipMismatch else
     if \<not> r_y r + r_h r \<le> r_y overlap + r_h overlap then Inl OwnershipMismatch else
     (case check_holes s r (holes s ownershipIndex) of
        Inl err \<Rightarrow> Inl err
      | Inr _ \<Rightarrow> getPriceOfAuctionedZone s r ownershipIndex))))"

text \<open>Lines 212-213: pay the owner of the record and emit \<^verbatim>\<open>PlotSectionSold\<close>.\<close>

definition payout :: "env \<Rightarrow> uint256 \<Rightarrow> uint256 \<Rightarrow> EthGrid \<Rightarrow> error + EthGrid" where
  "payout e ownershipIndex owedToSeller s =
     (case ownership_at s ownershipIndex of
        Inl err \<Rightarrow> Inl err
      | Inr z \<Rightarrow>
          (case transfer e (z_owner z) owedToSeller s of
             Inl err \<Rightarrow> Inl err
           | Inr s' \<Rightarrow>
               Inr (emit (PlotSectionSold ownershipIndex owedToSeller (msg_sender e) (z_owner z)) s')))"

text \<open>
  The loop of lines 174-216. \<^verbatim>\<open>rects\<close> and \<^verbatim>\<open>areaIndices\<close> have the same length
  (line 294) and are walked together, so the loop runs over the list of pairs; the piece
  is the last one when no pair is left, and \<^verbatim>\<open>areaIndices[areaIndicesIndex + 1]\<close> is
  the index of the next pair.
\<close>

fun distribute_loop ::
  "env \<Rightarrow> Rect \<Rightarrow> (Rect \<times> uint256) list \<Rightarrow> uint256 \<Rightarrow> uint256 \<Rightarrow> EthGrid \<Rightarrow> error + (uint256 \<times> EthGrid)"
where
  "distribute_loop e rectToPurchase [] remainingBalance owedToSeller s = Inr (remainingBalance, s)"
| "distribute_loop e rectToPurchase ((r, ownershipIndex) # rest) remainingBalance owedToSeller s =
     (case check_section s rectToPurchase r ownershipIndex of
        Inl err \<Rightarrow> Inl err
      | Inr sectionPrice \<Rightarrow>
     (case SafeMath_sub remainingBalance sectionPrice of
        None \<Rightarrow> Inl InsufficientPayment
      | Some remainingBalance' \<Rightarrow>
     (case SafeMath_add owedToSeller sectionPrice of
        None \<Rightarrow> Inl Overflow
      | Some owedToSeller' \<Rightarrow>
     if rest = [] \<or> ownershipIndex \<noteq> snd (hd rest) then
       (case payout e ownershipIndex owedToSeller' s of
          Inl err \<Rightarrow> Inl err
        | Inr s' \<Rightarrow> distribute_loop e rectToPurchase rest remainingBalance' 0 s')
     else distribute_loop e rectToPurchase rest remainingBalance' owedToSeller' s)))"

definition distributePurchaseFunds ::
  "env \<Rightarrow> Rect \<Rightarrow> Rect list \<Rightarrow> uint256 list \<Rightarrow> EthGrid \<Rightarrow> error + (uint256 \<times> EthGrid)"
where
  "distributePurchaseFunds e rectToPurchase rects areaIndices s =
     distribute_loop e rectToPurchase (zip rects areaIndices) (msg_value e) 0 s"

subsection \<open>validatePurchases (lines 278-334)\<close>

text \<open>Line 301-302: the \<open>i\<close>-th rectangle of \<^verbatim>\<open>purchasedAreas\<close>.\<close>

definition rect_at :: "uint256 list \<Rightarrow> nat \<Rightarrow> Rect" where
  "rect_at purchasedAreas i =
     \<lparr> r_x = purchasedAreas ! (i * 4), r_y = purchasedAreas ! (i * 4 + 1),
       r_w = purchasedAreas ! (i * 4 + 2), r_h = purchasedAreas ! (i * 4 + 3) \<rparr>"

text \<open>
  The rectangles the loop of lines 299-313 stores in \<^verbatim>\<open>rects\<close>. Lines 291-292 have
  made \<^verbatim>\<open>purchasedAreas\<close> four times as long as \<^verbatim>\<open>areaIndices\<close>, so every
  access is in range.
\<close>

definition rects_of :: "uint256 list \<Rightarrow> nat \<Rightarrow> Rect list" where
  "rects_of purchasedAreas n = map (rect_at purchasedAreas) [0..<n]"

text \<open>The loop of lines 299-313: sums the areas, checks each piece against the target.\<close>

fun tiling_loop :: "Rect \<Rightarrow> Rect list \<Rightarrow> uint256 \<Rightarrow> error + uint256" where
  "tiling_loop rectToPurchase [] totalArea = Inr totalArea"
| "tiling_loop rectToPurchase (rect # rest) totalArea =
     (case SafeMath_mul (r_w rect) (r_h rect) of
        None \<Rightarrow> Inl Overflow
      | Some a \<Rightarrow>
     (case SafeMath_add totalArea a of
        None \<Rightarrow> Inl Overflow
      | Some totalArea' \<Rightarrow>
     if \<not> r_x rect \<ge> r_x rectToPurchase then Inl PieceOutsideTarget else
     if \<not> r_y rect \<ge> r_y rectToPurchase then Inl PieceOutsideTarget else
     if \<not> r_x rect + r_w rect \<le> r_x rectToPurchase + r_w rectToPurchase then Inl PieceOutsideTarget else
     if \<not> r_y rect + r_h rect \<le> r_y rectToPurchase + r_h rectToPurchase then Inl PieceOutsideTarget else
     tiling_loop rectToPurchase rest totalArea'))"

text \<open>The inner loop of lines 319-321: \<open>rects[i]\<close> against every later rectangle.\<close>

fun overlaps_none :: "Rect \<Rightarrow> Rect list \<Rightarrow> error + unit" where
  "overlaps_none ri [] = Inr ()"
| "overlaps_none ri (rj # rest) =
     (case doRectanglesOverlap ri rj of
        Inl err \<Rightarrow> Inl err
      | Inr ov \<Rightarrow> if ov then Inl OverlappingPieces else overlaps_none ri rest)"

text \<open>The outer loop of lines 318-322.\<close>

fun overlap_loop :: "Rect list \<Rightarrow> error + unit" where
  "overlap_loop [] = Inr ()"
| "overlap_loop (ri # rest) =
     (case overlaps_none ri rest of
        Inl err \<Rightarrow> Inl err
      | Inr _ \<Rightarrow> overlap_loop rest)"

text \<open>Lines 283-287: the checks on the target rectangle alone.\<close>

definition target_in_bounds :: "Rect \<Rightarrow> bool" where
  "target_in_bounds rectToPurchase \<longleftrightarrow>
     (r_x rectToPurchase < ucast GRID_WIDTH \<and> r_x rectToPurchase \<ge> 0) \<and>
     (r_y rectToPurchase < ucast GRID_HEIGHT \<and> r_y rectToPurchase \<ge> 0) \<and>
     (r_w rectToPurchase > 0 \<and> r_w rectToPurchase + r_x rectToPurchase \<le> ucast GRID_WIDTH) \<and>
     (r_h rectToPurchase > 0 \<and> r_h rectToPurchase + r_y rectToPurchase \<le> ucast GRID_HEIGHT) \<and>
     r_w rectToPurchase * r_h rectToPurchase < MAXIMUM_PURCHASE_AREA"

text \<open>Lines 279-322: everything validatePurchases checks before it touches the funds.\<close>

definition check_tiling :: "uint24 list \<Rightarrow> uint256 list \<Rightarrow> uint256 list \<Rightarrow> error + (Rect \<times> Rect list)" where
  "check_tiling purchase purchasedAreas areaIndices =
     (if \<not> length purchase = 4 then Inl BadArguments else
      (let rectToPurchase = \<lparr> r_x = ucast (purchase ! 0), r_y = ucast (purchase ! 1),
                               r_w = ucast (purchase ! 2), r_h = ucast (purchase ! 3) \<rparr> in
       if \<not> target_in_bounds rectToPurchase then Inl BoundsError else
       if \<not> length purchasedAreas \<ge> 4 then Inl BadArguments else
       if \<not> length areaIndices > 0 then Inl BadArguments else
       if \<not> length purchasedAreas mod 4 = 0 then Inl BadArguments else
       if \<not> length purchasedAreas div 4 = length areaIndices then Inl BadArguments else
       (let rects = rects_of purchasedAreas (length areaIndices) in
        case tiling_loop rectToPurchase rects 0 of
          Inl err \<Rightarrow> Inl err
        | Inr totalArea \<Rightarrow>
        if \<not> totalArea = r_w rectToPurchase * r_h rectToPurchase then Inl IncompleteTiling else
        (case overlap_loop rects of
           Inl err \<Rightarrow> Inl err
         | Inr _ \<Rightarrow> Inr (rectToPurchase, rects)))))"

text \<open>Lines 326-333: the fee check on what is left after the sellers were paid.\<close>

definition check_fee :: "env \<Rightarrow> uint256 \<Rightarrow> error + uint256" where
  "check_fee e remainingBalance =
     (case SafeMath_sub (msg_value e) remainingBalance of
        None \<Rightarrow> Inl InsufficientPayment
      | Some purchasePrice \<Rightarrow>
     (case SafeMath_mul purchasePrice FEE_IN_THOUSANDS_OF_PERCENT of
        None \<Rightarrow> Inl Overflow
      | Some m \<Rightarrow>
     (case SafeMath_div m (1000 * 100) of
        None \<Rightarrow> Inl Overflow
      | Some requiredFee \<Rightarrow>
     if \<not> remainingBalance \<ge> requiredFee then Inl InsufficientFee else Inr purchasePrice)))"

definition validatePurchases ::
  "env \<Rightarrow> uint24 list \<Rightarrow> uint256 list \<Rightarrow> uint256 list \<Rightarrow> EthGrid \<Rightarrow> error + (uint256 \<times> EthGrid)"
where
  "validatePurchases e purchase purchasedAreas areaIndices s =
     (case check_tiling purchase purchasedAreas areaIndices of
        Inl err \<Rightarrow> Inl err
      | Inr (rectToPurchase, rects) \<Rightarrow>
     (case distributePurchaseFunds e rectToPurchase rects areaIndices s of
        Inl err \<Rightarrow> Inl err
      | Inr (remainingBalance, s') \<Rightarrow>
     (case check_fee e remainingBalance of
        Inl err \<Rightarrow> Inl err
      | Inr purchasePrice \<Rightarrow> Inr (purchasePrice, s'))))"

subsection \<open>purchaseAreaWithData (lines 84-122)\<close>

text \<open>Line 100: \<^verbatim>\<open>holes[k].push(newId)\<close>.\<close>

definition push_hole :: "uint256 \<Rightarrow> uint256 \<Rightarrow> EthGrid \<Rightarrow> EthGrid" where
  "push_hole newId k s = s\<lparr> holes := (holes s)(k := holes s k @ [newId]) \<rparr>"

definition ownershipLength :: "EthGrid \<Rightarrow> uint256" where
  "ownershipLength s = of_nat (length (ownership s))"

definition purchaseAreaWithData ::
  "env \<Rightarrow> uint24 list \<Rightarrow> uint256 list \<Rightarrow> uint256 list \<Rightarrow> string \<Rightarrow> string \<Rightarrow> uint256 \<Rightarrow> EthGrid
     \<Rightarrow> error + EthGrid"
where
  "purchaseAreaWithData e purchase purchasedAreas areaIndices ipfs link initialBuyoutPriceInWeiPerPixel s =
     (case validatePurchases e purchase purchasedAreas areaIndices (credit e s) of
        Inl err \<Rightarrow> Inl err
      | Inr (initialPurchasePrice, s1) \<Rightarrow>
     (let newId = ownershipLength s1;
          s2 = s1\<lparr> holes := (holes s1)(newId := []) \<rparr>;
          s3 = fold (push_hole newId) areaIndices s2;
          s4 = s3\<lparr> data := (data s3)(newId := \<lparr> ipfsHash = ipfs, url = link \<rparr>) \<rparr>;
          s5 = s4\<lparr> tokenIdToAuction := (tokenIdToAuction s4)(newId := initialBuyoutPriceInWeiPerPixel) \<rparr>;
          s6 = emit (PlotPurchased newId initialPurchasePrice (msg_sender e)) s5;
          newZone = \<lparr> z_x = purchase ! 0, z_y = purchase ! 1, z_w = purchase ! 2, z_h = purchase ! 3,
                      z_owner = msg_sender e \<rparr>
      in Inr (s6\<lparr> ownership := ownership s6 @ [newZone] \<rparr>)))"

subsection \<open>updateAuction, withdraw (lines 125-144)\<close>

definition setAuctionPrice :: "env \<Rightarrow> uint256 \<Rightarrow> uint256 \<Rightarrow> EthGrid \<Rightarrow> error + EthGrid" where
  "setAuctionPrice e zoneIndex newPriceInWeiPerPixel s =
     (if \<not> zoneIndex \<ge> 0 then Inl UnknownRecord else
      if \<not> zoneIndex < ownershipLength s then Inl UnknownRecord else
      (case ownership_at s zoneIndex of
         Inl err \<Rightarrow> Inl err
       | Inr z \<Rightarrow>
           if \<not> msg_sender e = z_owner z then Inl NotOwner
           else Inr (s\<lparr> tokenIdToAuction := (tokenIdToAuction s)(zoneIndex := newPriceInWeiPerPixel) \<rparr>)))"

definition updateAuction :: "env \<Rightarrow> uint256 \<Rightarrow> uint256 \<Rightarrow> EthGrid \<Rightarrow> error + EthGrid" where
  "updateAuction e zoneIndex newPriceInWeiPerPixel s =
     (if msg_value e \<noteq> 0 then Inl NonPayable else
      (case setAuctionPrice e zoneIndex newPriceInWeiPerPixel s of
         Inl err \<Rightarrow> Inl err
       | Inr s' \<Rightarrow> Inr (emit (AuctionUpdated zoneIndex newPriceInWeiPerPixel (msg_sender e)) s')))"

definition withdraw :: "env \<Rightarrow> address \<Rightarrow> EthGrid \<Rightarrow> error + EthGrid" where
  "withdraw e transferTo s =
     (if msg_value e \<noteq> 0 then Inl NonPayable else
      if \<not> msg_sender e = owner s then Inl NotAuthorized else
      if \<not> transferTo = owner s then Inl NotAuthorized else
      (let currentBalance = balance s in transfer e (owner s) currentBalance s))"

subsection \<open>Transactions\<close>

datatype call =
    PurchaseAreaWithData "uint24 list" "uint256 list" "uint256 list" string string uint256
  | UpdateAuction uint256 uint256
  | Withdraw address

fun run :: "env \<Rightarrow> call \<Rightarrow> EthGrid \<Rightarrow> error + EthGrid" where
  "run e (PurchaseAreaWithData purchase purchasedAreas areaIndices ipfs link price) s =
     purchaseAreaWithData e purchase purchasedAreas areaIndices ipfs link price s"
| "run e (UpdateAuction zoneIndex price) s = updateAuction e zoneIndex price s"
| "run e (Withdraw transferTo) s = withdraw e transferTo s"

text \<open>
  The EVM runs a call as a transaction: when the call aborts, every change it made to
  storage, balances and logs is undone, and the state is the one before the call.
\<close>

definition transact :: "env \<Rightarrow> call \<Rightarrow> EthGrid \<Rightarrow> EthGrid \<times> error option" where
  "transact e c s = (case run e c s of Inl err \<Rightarrow> (s, Some err) | Inr s' \<Rightarrow> (s', None))"

subsection \<open>The state in which a call stops\<close>

text \<open>
  The functions above give the result of a call and, when it aborts, only the error. What
  the code has done by the time it stops (returns or aborts) is a state too: the storage it
  has written, the ether it has sent, the events it has emitted up to that statement. The
  following functions compute that state for the purchase, statement by statement.
\<close>

text \<open>
  The loop of lines 174-216 stops at the first failing check of lines 175-207 or at a
  refused transfer of line 212, in the state of that iteration: the checks write nothing,
  and a refused transfer has no effect. Payouts of earlier iterations have been made.
\<close>

fun distribute_loop_stopped ::
  "env \<Rightarrow> Rect \<Rightarrow> (Rect \<times> uint256) list \<Rightarrow> uint256 \<Rightarrow> uint256 \<Rightarrow> EthGrid \<Rightarrow> EthGrid"
where
  "distribute_loop_stopped e rectToPurchase [] remainingBalance owedToSeller s = s"
| "distribute_loop_stopped e rectToPurchase ((r, ownershipIndex) # rest) remainingBalance owedToSeller s =
     (case check_section s rectToPurchase r ownershipIndex of
        Inl err \<Rightarrow> s
      | Inr sectionPrice \<Rightarrow>
     (case SafeMath_sub remainingBalance sectionPrice of
        None \<Rightarrow> s
      | Some remainingBalance' \<Rightarrow>
     (case SafeMath_add owedToSeller sectionPrice of
        None \<Rightarrow> s
      | Some owedToSeller' \<Rightarrow>
     if rest = [] \<or> ownershipIndex \<noteq> snd (hd rest) then
       (case payout e ownershipIndex owedToSeller' s of
          Inl err \<Rightarrow> s
        | Inr s' \<Rightarrow> distribute_loop_stopped e rectToPurchase rest remainingBalance' 0 s')
     else distribute_loop_stopped e rectToPurchase rest remainingBalance' owedToSeller' s)))"

text \<open>
  validatePurchases: lines 279-322 and 327-331 read and compute only, so it stops either
  in the state it was called in or in the state in which the loop of
  distributePurchaseFunds stopped.
\<close>

definition validatePurchases_stopped ::
  "env \<Rightarrow> uint24 list \<Rightarrow> uint256 list \<Rightarrow> uint256 list \<Rightarrow> EthGrid \<Rightarrow> EthGrid"
where
  "validatePurchases_stopped e purchase purchasedAreas areaIndices s =
     (case check_tiling purchase purchasedAreas areaIndices of
        Inl err \<Rightarrow> s
      | Inr (rectToPurchase, rects) \<Rightarrow>
          distribute_loop_stopped e rectToPurchase (zip rects areaIndices) (msg_value e) 0 s)"

text \<open>
  purchaseAreaWithData: the value sent has been credited when the body starts; line 92 is
  the only statement that can abort (lines 95-120 assign to mappings and push to arrays);
  when it does not, the call runs to its end.
\<close>

definition purchaseAreaWithData_stopped ::
  "env \<Rightarrow> uint24 list \<Rightarrow> uint256 list \<Rightarrow> uint256 list \<Rightarrow> string \<Rightarrow> string \<Rightarrow> uint256 \<Rightarrow> EthGrid
     \<Rightarrow> EthGrid"
where
  "purchaseAreaWithData_stopped e purchase purchasedAreas areaIndices ipfs link initialBuyoutPriceInWeiPerPixel s =
     (case validatePurchases e purchase purchasedAreas areaIndices (credit e s) of
        Inl err \<Rightarrow> validatePurchases_stopped e purchase purchasedAreas areaIndices (credit e s)
      | Inr (initialPurchasePrice, s1) \<Rightarrow>
     (let newId = ownershipLength s1;
          s2 = s1\<lparr> holes := (holes s1)(newId := []) \<rparr>;
          s3 = fold (push_hole newId) areaIndices s2;
          s4 = s3\<lparr> data := (data s3)(newId := \<lparr> ipfsHash = ipfs, url = link \<rparr>) \<rparr>;
          s5 = s4\<lparr> tokenIdToAuction := (tokenIdToAuction s4)(newId := initialBuyoutPriceInWeiPerPixel) \<rparr>;
          s6 = emit (PlotPurchased newId initialPurchasePrice (msg_sender e)) s5;
          newZone = \<lparr> z_x = purchase ! 0, z_y = purchase ! 1, z_w = purchase ! 2, z_h = purchase ! 3,
                      z_owner = msg_sender e \<rparr>
      in s6\<lparr> ownership := ownership s6 @ [newZone] \<rparr>))"

section \<open>Specification-level notions\<close>

subsection \<open>Pieces and prices\<close>

text \<open>The rectangle \<^verbatim>\<open>validatePurchases\<close> builds from \<^verbatim>\<open>purchase\<close> at line 280.\<close>

definition target_rect :: "uint24 list \<Rightarrow> Rect" where
  "target_rect purchase =
     \<lparr> r_x = ucast (purchase ! 0), r_y = ucast (purchase ! 1),
       r_w = ucast (purchase ! 2), r_h = ucast (purchase ! 3) \<rparr>"

text \<open>The record line 113-119 builds for the buyer.\<close>

definition new_zone :: "env \<Rightarrow> uint24 list \<Rightarrow> ZoneOwnership" where
  "new_zone e purchase =
     \<lparr> z_x = purchase ! 0, z_y = purchase ! 1, z_w = purchase ! 2, z_h = purchase ! 3,
       z_owner = msg_sender e \<rparr>"

text \<open>
  The pieces of a tiling as the two loops see them: the \<open>i\<close>-th rectangle of
  \<^verbatim>\<open>purchasedAreas\<close> with the \<open>i\<close>-th entry of \<^verbatim>\<open>areaIndices\<close>.
\<close>

definition pieces_of :: "uint256 list \<Rightarrow> uint256 list \<Rightarrow> (Rect \<times> uint256) list" where
  "pieces_of purchasedAreas areaIndices =
     zip (rects_of purchasedAreas (length areaIndices)) areaIndices"

text \<open>The price of one piece and of a tiling, as unbounded natural numbers.\<close>

definition piece_price :: "EthGrid \<Rightarrow> Rect \<times> uint256 \<Rightarrow> nat" where
  "piece_price s p = unat (r_w (fst p)) * unat (r_h (fst p)) * unat (tokenIdToAuction s (snd p))"

definition total_price :: "EthGrid \<Rightarrow> (Rect \<times> uint256) list \<Rightarrow> nat" where
  "total_price s ps = sum_list (map (piece_price s) ps)"


subsection \<open>Payouts\<close>

text \<open>
  Payouts by runs. A tiling is priced piece by piece; neighbouring pieces of the same
  record form a run, and a run is worth the sum of its pieces.
\<close>

definition priced :: "EthGrid \<Rightarrow> (Rect \<times> uint256) list \<Rightarrow> (uint256 \<times> nat) list" where
  "priced s ps = map (\<lambda>p. (snd p, piece_price s p)) ps"

fun group_runs :: "(uint256 \<times> nat) list \<Rightarrow> (uint256 \<times> nat) list" where
  "group_runs [] = []"
| "group_runs [(k, a)] = [(k, a)]"
| "group_runs ((k, a) # (k', a') # rest) =
     (if k = k' then group_runs ((k', a + a') # rest)
      else (k, a) # group_runs ((k', a') # rest))"

text \<open>The transfer that pays a run \<open>g = (k, amount)\<close> to the owner of record \<open>k\<close>.\<close>

definition pay :: "EthGrid \<Rightarrow> uint256 \<times> nat \<Rightarrow> address \<times> uint256" where
  "pay s g = (z_owner (ownership s ! unat (fst g)), of_nat (snd g))"

text \<open>The ether transfers made since the state \<open>s\<close>, and the wei they moved.\<close>

definition sent_since :: "EthGrid \<Rightarrow> EthGrid \<Rightarrow> (address \<times> uint256) list" where
  "sent_since s s' = drop (length (sent s)) (sent s')"

definition wei_of :: "(address \<times> uint256) list \<Rightarrow> nat" where
  "wei_of ts = sum_list (map (\<lambda>t. unat (snd t)) ts)"

text \<open>The wei that a list of transfers moves to the address \<open>a\<close>.\<close>

definition paid_to :: "address \<Rightarrow> (address \<times> uint256) list \<Rightarrow> nat" where
  "paid_to a ts = wei_of (filter (\<lambda>t. fst t = a) ts)"

text \<open>The pieces of a tiling attributed to records that \<open>a\<close> owns.\<close>

definition pieces_owned_by :: "EthGrid \<Rightarrow> address \<Rightarrow> (Rect \<times> uint256) list \<Rightarrow> (Rect \<times> uint256) list" where
  "pieces_owned_by s a ps = filter (\<lambda>p. z_owner (ownership s ! unat (snd p)) = a) ps"

subsection \<open>What a call leaves alone\<close>

text \<open>
  The part of the state the settlement loop only reads: it moves ether and emits events,
  and writes neither the record array nor a mapping.
\<close>

definition same_ledger :: "EthGrid \<Rightarrow> EthGrid \<Rightarrow> bool" where
  "same_ledger s s' \<longleftrightarrow>
     ownership s' = ownership s \<and> holes s' = holes s \<and>
     tokenIdToAuction s' = tokenIdToAuction s \<and> data s' = data s \<and> owner s' = owner s"

text \<open>A state without its event log (the events name the buyer).\<close>

definition modulo_events :: "EthGrid \<Rightarrow> EthGrid" where
  "modulo_events s = s\<lparr> events := [] \<rparr>"

subsection \<open>The invariant of ownership records\<close>

definition zone_ok :: "ZoneOwnership \<Rightarrow> bool" where
  "zone_ok z \<longleftrightarrow>
     0 < unat (z_w z) \<and> 0 < unat (z_h z) \<and>
     unat (z_x z) + unat (z_w z) \<le> unat GRID_WIDTH \<and>
     unat (z_y z) + unat (z_h z) \<le> unat GRID_HEIGHT"

definition ledger_ok :: "EthGrid \<Rightarrow> bool" where
  "ledger_ok s \<longleftrightarrow> list_all zone_ok (ownership s)"

text \<open>The state after a sequence of transactions, each with its own sender and value.\<close>

fun replay :: "EthGrid \<Rightarrow> (env \<times> call) list \<Rightarrow> EthGrid" where
  "replay s [] = s"
| "replay s (t # ts) = replay (fst (transact (fst t) (snd t) s)) ts"

section \<open>Example transactions\<close>

definition admin :: address where "admin = 1"

definition alice :: address where "alice = 2"

definition bob :: address where "bob = 3"

definition env_of :: "address \<Rightarrow> uint256 \<Rightarrow> env" where
  "env_of sender v = \<lparr> msg_sender = sender, msg_value = v, accepts = (\<lambda>_. True) \<rparr>"

text \<open>The contract as deployed by \<open>admin\<close>: one record, the whole grid, 20000 gwei a pixel.\<close>

definition genesis :: EthGrid where
  "genesis = constructor (env_of admin 0)"

text \<open>
  \<open>alice\<close> buys the 5 x 5 block at (10, 10) from record 0: 25 pixels at 20000 gwei, plus
  the fee of one percent; she offers the block at 1 wei a pixel.
\<close>

definition first_purchase :: "error + EthGrid" where
  "first_purchase =
     purchaseAreaWithData (env_of alice 505000000000000)
       [10, 10, 5, 5] [10, 10, 5, 5] [0] ''hash'' ''url'' 1 genesis"

definition after_first :: EthGrid where
  "after_first = projr first_purchase"

text \<open>\<open>alice\<close> sends exactly the price of the 5 x 5 block and nothing for the fee.\<close>

definition unpaid_fee_purchase :: "error + EthGrid" where
  "unpaid_fee_purchase =
     purchaseAreaWithData (env_of alice 500000000000000)
       [10, 10, 5, 5] [10, 10, 5, 5] [0] ''hash'' ''url'' 1 genesis"

text \<open>
  \<open>alice\<close> buys the 2 x 1 block at the origin as two pieces of one pixel, both from
  record 0.
\<close>

definition two_piece_purchase :: "error + EthGrid" where
  "two_piece_purchase =
     purchaseAreaWithData (env_of alice 40400000000000)
       [0, 0, 2, 1] [0, 0, 1, 1, 1, 0, 1, 1] [0, 0] ''hash'' ''url'' 1 genesis"

text \<open>
  \<open>admin\<close> lowers the price of record 0 to 1 wei a pixel; \<open>alice\<close> then buys the
  pixel at the origin and sends exactly its price, 1 wei.
\<close>

definition cheap :: EthGrid where
  "cheap = projr (updateAuction (env_of admin 0) 0 1 genesis)"

definition cheap_purchase :: "error + EthGrid" where
  "cheap_purchase =
     purchaseAreaWithData (env_of alice 1) [0, 0, 1, 1] [0, 0, 1, 1] [0] ''hash'' ''url'' 1 cheap"

text \<open>
  After \<open>alice\<close>'s purchase, \<open>bob\<close> buys the row of seven pixels from (9, 10) to
  (15, 10): one pixel of record 0, five pixels of \<open>alice\<close>'s record 1, one more pixel of
  record 0. The pieces of record 0 are not neighbours in the list.
\<close>

definition noncontiguous_purchase :: "error + EthGrid" where
  "noncontiguous_purchase =
     purchaseAreaWithData (env_of bob 40400000000005)
       [9, 10, 7, 1] [9, 10, 1, 1, 10, 10, 5, 1, 15, 10, 1, 1] [0, 1, 0] ''hash'' ''url'' 1
       after_first"

text \<open>\<open>admin\<close> buys the pixel at the origin from record 0, which \<open>admin\<close> owns.\<close>

definition self_purchase :: "error + EthGrid" where
  "self_purchase =
     purchaseAreaWithData (env_of admin 20200000000000)
       [0, 0, 1, 1] [0, 0, 1, 1] [0] ''hash'' ''url'' 1 genesis"

text \<open>
  \<open>alice\<close> buys the 2 x 1 block at the origin and declares one piece for it, of width 2
  and height 1, at x = 2^256 - 1: the sum x + w is 2^256 + 1 and does not fit a
  \<^verbatim>\<open>uint256\<close>.
\<close>

definition wrapping_purchase :: "error + EthGrid" where
  "wrapping_purchase =
     purchaseAreaWithData (env_of alice 40400000000000)
       [0, 0, 2, 1]
       [115792089237316195423570985008687907853269984665640564039457584007913129639935, 0, 2, 1]
       [0] ''hash'' ''url'' 1 genesis"

text \<open>
  With record 0 at 1 wei a pixel, \<open>alice\<close> buys the 3 x 3 block at the origin and sends
  exactly its price, 9 wei.
\<close>

definition small_purchase :: "error + EthGrid" where
  "small_purchase =
     purchaseAreaWithData (env_of alice 9) [0, 0, 3, 3] [0, 0, 3, 3] [0] ''hash'' ''url'' 1 cheap"

section \<open>Properties\<close>

subsection \<open>SafeMath and word arithmetic\<close>

lemma SafeMath_add_Some:
  "SafeMath_add a b = Some c \<longleftrightarrow> unat a + unat b < 2 ^ 256 \<and> c = a + b"
  using no_olen_add_nat [of a b] by (auto simp: SafeMath_add_def Let_def)

lemma SafeMath_sub_Some:
  "SafeMath_sub a b = Some c \<longleftrightarrow> unat b \<le> unat a \<and> c = a - b"
  by (auto simp: SafeMath_sub_def word_le_nat_alt)

lemma SafeMath_mul_Some:
  "SafeMath_mul a b = Some c \<longleftrightarrow> unat a * unat b < 2 ^ 256 \<and> c = a * b"
proof (cases "a = 0")
  case True
  then show ?thesis by (auto simp: SafeMath_mul_def)
next
  case False
  then have pos: "0 < a" by (simp add: word_gt_0)
  have "a * b div a = b \<longleftrightarrow> unat a * unat b < 2 ^ 256"
  proof
    assume "a * b div a = b"
    then have "b \<le> a * b div a" by simp
    from div_lt' [OF this] show "unat a * unat b < 2 ^ 256" by (simp add: mult.commute)
  next
    assume "unat a * unat b < 2 ^ 256"
    then have "unat b * unat a < 2 ^ LENGTH(256)" by (simp add: mult.commute)
    from word_div_mult [OF pos this] show "a * b div a = b" by (simp add: mult.commute)
  qed
  with False show ?thesis by (auto simp: SafeMath_mul_def Let_def)
qed

lemma unat_SafeMath_add: "SafeMath_add a b = Some c \<Longrightarrow> unat c = unat a + unat b"
  using unat_add_lem [of a b] by (simp add: SafeMath_add_Some)

lemma unat_SafeMath_sub: "SafeMath_sub a b = Some c \<Longrightarrow> unat c = unat a - unat b \<and> unat b \<le> unat a"
  by (simp add: SafeMath_sub_Some unat_sub word_le_nat_alt)

lemma unat_SafeMath_mul: "SafeMath_mul a b = Some c \<Longrightarrow> unat c = unat a * unat b"
  using unat_mult_lem [of a b] by (simp add: SafeMath_mul_Some)

lemma unat_ucast_24_256: "unat (ucast (x :: uint24) :: uint256) = unat x"
proof -
  have "unat x < 2 ^ 24" using unsigned_less [of x] by simp
  then have "unat x < 2 ^ 256" by simp
  then show ?thesis by (simp add: unsigned_ucast_eq take_bit_nat_eq_self)
qed

lemma unat_ucast_lt: "unat (ucast (x :: uint24) :: uint256) < 2 ^ 24"
  using unsigned_less [of x] by (simp add: unat_ucast_24_256)

lemma unat_add_ucast:
  "unat (ucast (a :: uint24) + ucast (b :: uint24) :: uint256) = unat a + unat b"
proof -
  have "unat (ucast a :: uint256) + unat (ucast b :: uint256) < 2 ^ 24 + 2 ^ 24"
    using unat_ucast_lt [of a] unat_ucast_lt [of b] by linarith
  then have "unat (ucast a :: uint256) + unat (ucast b :: uint256) < 2 ^ LENGTH(256)" by simp
  then show ?thesis by (simp add: unat_add_lem [THEN iffD1] unat_ucast_24_256)
qed

lemma unat_mult_ucast:
  "unat (ucast (a :: uint24) * ucast (b :: uint24) :: uint256) = unat a * unat b"
proof -
  have "unat (ucast a :: uint256) * unat (ucast b :: uint256) < 2 ^ 24 * 2 ^ 24"
    using unat_ucast_lt [of a] unat_ucast_lt [of b] by (intro mult_strict_mono) simp_all
  then have "unat (ucast a :: uint256) * unat (ucast b :: uint256) < 2 ^ LENGTH(256)" by simp
  then show ?thesis by (simp add: unat_mult_lem [THEN iffD1] unat_ucast_24_256)
qed

lemma target_in_bounds_iff:
  "target_in_bounds \<lparr> r_x = ucast (x :: uint24), r_y = ucast (y :: uint24),
                       r_w = ucast (w :: uint24), r_h = ucast (h :: uint24) \<rparr> \<longleftrightarrow>
     0 < unat w \<and> 0 < unat h \<and> unat x + unat w \<le> 250 \<and> unat y + unat h \<le> 250 \<and>
     unat w * unat h < 1000"
proof -
  have c: "unat GRID_WIDTH = 250" "unat GRID_HEIGHT = 250" "unat MAXIMUM_PURCHASE_AREA = 1000"
    by (simp_all add: GRID_WIDTH_def GRID_HEIGHT_def MAXIMUM_PURCHASE_AREA_def)
  show ?thesis
    unfolding target_in_bounds_def word_less_nat_alt word_le_nat_alt
    by (auto simp: c unat_add_ucast unat_mult_ucast unat_ucast_24_256)
qed

subsection \<open>What the settlement loop leaves alone\<close>

lemma same_ledger_refl: "same_ledger s s"
  by (simp add: same_ledger_def)

lemma same_ledger_trans: "same_ledger s s1 \<Longrightarrow> same_ledger s1 s2 \<Longrightarrow> same_ledger s s2"
  by (simp add: same_ledger_def)

lemma same_ledger_credit: "same_ledger s (credit e s)"
  by (simp add: same_ledger_def credit_def)

lemma check_holes_cong: "ownership s' = ownership s \<Longrightarrow> check_holes s' r hs = check_holes s r hs"
  by (induction hs) (simp_all add: ownership_at_def split: sum.splits)

lemma check_section_cong:
  assumes "same_ledger s s'"
  shows "check_section s' rtp r k = check_section s rtp r k"
proof -
  from assms have o: "ownership s' = ownership s" and h: "holes s' = holes s"
    and t: "tokenIdToAuction s' = tokenIdToAuction s"
    by (simp_all add: same_ledger_def)
  have "ownership_at s' k = ownership_at s k" by (simp add: ownership_at_def o)
  moreover have "check_holes s' r (holes s' k) = check_holes s r (holes s k)"
    unfolding h by (rule check_holes_cong [OF o])
  moreover have "getPriceOfAuctionedZone s' r k = getPriceOfAuctionedZone s r k"
    by (simp add: getPriceOfAuctionedZone_def t)
  ultimately show ?thesis by (simp add: check_section_def Let_def cong: sum.case_cong if_cong)
qed

lemma piece_price_cong: "same_ledger s s' \<Longrightarrow> piece_price s' p = piece_price s p"
  by (simp add: piece_price_def same_ledger_def)

lemma total_price_cong: "same_ledger s s' \<Longrightarrow> total_price s' ps = total_price s ps"
  by (simp add: total_price_def piece_price_cong cong: map_cong)

lemma total_price_Cons: "total_price s (p # ps) = piece_price s p + total_price s ps"
  by (simp add: total_price_def)

lemma pay_cong: "same_ledger s s' \<Longrightarrow> pay s' = pay s"
  by (simp add: pay_def same_ledger_def fun_eq_iff)

lemma priced_cong: "same_ledger s s' \<Longrightarrow> priced s' ps = priced s ps"
  by (simp add: priced_def piece_price_cong cong: map_cong)

lemma payout_same_ledger: "payout e k amount s = Inr s' \<Longrightarrow> same_ledger s s'"
  by (auto simp: payout_def transfer_def emit_def same_ledger_def split: sum.splits if_splits)

lemma distribute_loop_ConsE:
  assumes "distribute_loop e rtp ((r, k) # ps) rem owed s = Inr res"
  obtains sp rem1 owed1 s1 o1 where
    "check_section s rtp r k = Inr sp"
    "SafeMath_sub rem sp = Some rem1"
    "SafeMath_add owed sp = Some owed1"
    "if ps = [] \<or> k \<noteq> snd (hd ps) then payout e k owed1 s = Inr s1 \<and> o1 = 0
     else s1 = s \<and> o1 = owed1"
    "distribute_loop e rtp ps rem1 o1 s1 = Inr res"
proof -
  from assms obtain sp where sec: "check_section s rtp r k = Inr sp"
    by (cases "check_section s rtp r k") simp_all
  from assms sec obtain rem1 where sub: "SafeMath_sub rem sp = Some rem1"
    by (cases "SafeMath_sub rem sp") simp_all
  from assms sec sub obtain owed1 where add: "SafeMath_add owed sp = Some owed1"
    by (cases "SafeMath_add owed sp") simp_all
  show thesis
  proof (cases "ps = [] \<or> k \<noteq> snd (hd ps)")
    case True
    with assms sec sub add obtain s1 where pay: "payout e k owed1 s = Inr s1"
      by (cases "payout e k owed1 s") simp_all
    with assms sec sub add True have "distribute_loop e rtp ps rem1 0 s1 = Inr res" by simp
    with that [OF sec sub add, of s1 0] True pay show thesis by simp
  next
    case False
    with assms sec sub add have "distribute_loop e rtp ps rem1 owed1 s = Inr res" by simp
    with that [OF sec sub add, of s owed1] False show thesis by simp
  qed
qed

lemma distribute_loop_same_ledger:
  "distribute_loop e rtp ps rem owed s = Inr res \<Longrightarrow> same_ledger s (snd res)"
proof (induction ps arbitrary: rem owed s)
  case Nil
  then show ?case by (auto simp: same_ledger_refl)
next
  case (Cons p ps)
  obtain r k where p: "p = (r, k)" by (cases p)
  from Cons.prems [unfolded p] show ?case
  proof (rule distribute_loop_ConsE)
    fix sp rem1 owed1 s1 o1
    assume step: "if ps = [] \<or> k \<noteq> snd (hd ps) then payout e k owed1 s = Inr s1 \<and> o1 = 0
        else s1 = s \<and> o1 = owed1"
      and rest: "distribute_loop e rtp ps rem1 o1 s1 = Inr res"
    from step have "same_ledger s s1"
      by (auto split: if_splits dest: payout_same_ledger intro: same_ledger_refl)
    with Cons.IH [OF rest] show ?thesis by (rule same_ledger_trans [rotated])
  qed
qed

lemma distributePurchaseFunds_same_ledger:
  "distributePurchaseFunds e rtp rects idxs s = Inr (rem, s') \<Longrightarrow> same_ledger s s'"
  unfolding distributePurchaseFunds_def by (drule distribute_loop_same_ledger) simp

subsection \<open>Taking a successful call apart\<close>

lemma check_tiling_Inr:
  assumes "check_tiling purchase pa idxs = Inr (rtp, rects)"
  shows "length purchase = 4" and "rtp = target_rect purchase" and "target_in_bounds rtp"
    and "rects = rects_of pa (length idxs)" and "idxs \<noteq> []" and "length pa = 4 * length idxs"
    and "overlap_loop rects = Inr ()"
    and "tiling_loop rtp rects 0 = Inr (r_w rtp * r_h rtp)"
  using assms
  by (auto simp: check_tiling_def target_rect_def Let_def split: if_splits sum.splits)

lemma validatePurchases_Inr:
  assumes "validatePurchases e purchase pa idxs s = Inr (price, s')"
  obtains rtp rects rem where
    "check_tiling purchase pa idxs = Inr (rtp, rects)"
    "distributePurchaseFunds e rtp rects idxs s = Inr (rem, s')"
    "check_fee e rem = Inr price"
  using assms
  by (auto simp: validatePurchases_def split: sum.splits prod.splits)

lemma validatePurchases_same_ledger:
  assumes "validatePurchases e purchase pa idxs s = Inr (price, s')"
  shows "same_ledger s s'"
  using assms by (elim validatePurchases_Inr) (rule distributePurchaseFunds_same_ledger)

lemma purchase_same_ledger:
  assumes "validatePurchases e purchase pa idxs (credit e s) = Inr (price, s1)"
  shows "same_ledger s s1"
  using same_ledger_credit validatePurchases_same_ledger [OF assms] by (rule same_ledger_trans)

lemma fold_push_hole_fields:
  "ownership (fold (push_hole n) ks s) = ownership s"
  "data (fold (push_hole n) ks s) = data s"
  "tokenIdToAuction (fold (push_hole n) ks s) = tokenIdToAuction s"
  "owner (fold (push_hole n) ks s) = owner s"
  "balance (fold (push_hole n) ks s) = balance s"
  "sent (fold (push_hole n) ks s) = sent s"
  "events (fold (push_hole n) ks s) = events s"
  by (induction ks arbitrary: s; simp add: push_hole_def)+

lemma fold_push_hole_holes:
  "holes (fold (push_hole n) ks s) k = holes s k @ replicate (count_list ks k) n"
  by (induction ks arbitrary: s) (simp_all add: push_hole_def replicate_app_Cons_same)

lemma purchase_Inr:
  assumes "purchaseAreaWithData e purchase pa idxs ipfs link ip s = Inr s'"
  obtains price s1 where
    "validatePurchases e purchase pa idxs (credit e s) = Inr (price, s1)"
    "ownership s' = ownership s1 @ [new_zone e purchase]"
    "holes s' = (\<lambda>k. (if k = ownershipLength s1 then [] else holes s1 k)
                        @ replicate (count_list idxs k) (ownershipLength s1))"
    "data s' = (data s1)(ownershipLength s1 := \<lparr> ipfsHash = ipfs, url = link \<rparr>)"
    "tokenIdToAuction s' = (tokenIdToAuction s1)(ownershipLength s1 := ip)"
    "events s' = events s1 @ [PlotPurchased (ownershipLength s1) price (msg_sender e)]"
    "sent s' = sent s1" "balance s' = balance s1" "owner s' = owner s1"
proof -
  from assms obtain price s1 where
    v: "validatePurchases e purchase pa idxs (credit e s) = Inr (price, s1)"
    by (auto simp: purchaseAreaWithData_def split: sum.splits)
  with assms have s': "s' = (emit (PlotPurchased (ownershipLength s1) price (msg_sender e))
       ((fold (push_hole (ownershipLength s1)) idxs (s1\<lparr> holes := (holes s1)(ownershipLength s1 := []) \<rparr>))
          \<lparr> data := (data s1)(ownershipLength s1 := \<lparr> ipfsHash = ipfs, url = link \<rparr>),
            tokenIdToAuction := (tokenIdToAuction s1)(ownershipLength s1 := ip) \<rparr>))
       \<lparr> ownership := ownership s1 @ [new_zone e purchase] \<rparr>"
    by (simp add: purchaseAreaWithData_def Let_def emit_def fold_push_hole_fields new_zone_def)
  show thesis
    by (rule that [OF v])
       (auto simp: s' emit_def fold_push_hole_fields fold_push_hole_holes fun_eq_iff)
qed

lemma length_rects_of: "length (rects_of pa n) = n"
  by (simp add: rects_of_def)

lemma validatePurchases_pieces:
  assumes "check_tiling purchase pa idxs = Inr (rtp, rects)"
  shows "zip rects idxs = pieces_of pa idxs" and "snd ` set (pieces_of pa idxs) = set idxs"
proof -
  from check_tiling_Inr(4) [OF assms] show "zip rects idxs = pieces_of pa idxs"
    by (simp add: pieces_of_def)
  have "length (rects_of pa (length idxs)) = length idxs" by (rule length_rects_of)
  then show "snd ` set (pieces_of pa idxs) = set idxs"
    unfolding pieces_of_def by (metis map_snd_zip set_map)
qed


lemma check_section_getPrice:
  "check_section s rtp r k = Inr p \<Longrightarrow> getPriceOfAuctionedZone s r k = Inr p"
  by (simp add: check_section_def Let_def split: sum.splits if_splits)

lemma getPrice_Inr:
  "getPriceOfAuctionedZone s r k = Inr p \<Longrightarrow>
     unat p = piece_price s (r, k) \<and> tokenIdToAuction s k \<noteq> 0"
  by (auto simp: getPriceOfAuctionedZone_def piece_price_def Let_def word_gt_0
        split: if_splits option.splits dest!: unat_SafeMath_mul)

lemma check_section_Inr:
  "check_section s rtp r k = Inr p \<Longrightarrow>
     unat p = piece_price s (r, k) \<and> tokenIdToAuction s k \<noteq> 0"
  by (rule getPrice_Inr) (rule check_section_getPrice)

lemma check_section_index:
  "check_section s rtp r k = Inr p \<Longrightarrow> unat k < length (ownership s)"
  by (simp add: check_section_def ownership_at_def split: if_splits)

lemma distribute_loop_indices:
  "distribute_loop e rtp ps rem owed s = Inr res \<Longrightarrow>
     \<forall>p \<in> set ps. unat (snd p) < length (ownership s)"
proof (induction ps arbitrary: rem owed s)
  case Nil
  then show ?case by simp
next
  case (Cons p ps)
  obtain r k where p: "p = (r, k)" by (cases p)
  from Cons.prems [unfolded p] show ?case
  proof (rule distribute_loop_ConsE)
    fix sp rem1 owed1 s1 o1
    assume sec: "check_section s rtp r k = Inr sp"
      and step: "if ps = [] \<or> k \<noteq> snd (hd ps) then payout e k owed1 s = Inr s1 \<and> o1 = 0
        else s1 = s \<and> o1 = owed1"
      and rest: "distribute_loop e rtp ps rem1 o1 s1 = Inr res"
    from step have "same_ledger s s1"
      by (auto split: if_splits dest: payout_same_ledger intro: same_ledger_refl)
    then have "ownership s1 = ownership s" by (simp add: same_ledger_def)
    with Cons.IH [OF rest] check_section_index [OF sec] show ?thesis by (simp add: p)
  qed
qed

lemma validatePurchases_indices:
  assumes "validatePurchases e purchase pa idxs s = Inr (price, s')"
  shows "\<forall>k \<in> set idxs. unat k < length (ownership s)"
proof -
  from assms obtain rtp rects rem where
    t: "check_tiling purchase pa idxs = Inr (rtp, rects)" and
    d: "distributePurchaseFunds e rtp rects idxs s = Inr (rem, s')"
    by (rule validatePurchases_Inr)
  from check_tiling_Inr(4) [OF t] have "length rects = length idxs" by (simp add: length_rects_of)
  then have "snd ` set (zip rects idxs) = set idxs"
    by (metis map_snd_zip set_map)
  with distribute_loop_indices [OF d [unfolded distributePurchaseFunds_def]] show ?thesis
    by force
qed

subsection \<open>The price charged\<close>

lemma distribute_loop_total:
  "distribute_loop e rtp ps rem owed s = Inr res \<Longrightarrow>
     unat rem = unat (fst res) + total_price s ps"
proof (induction ps arbitrary: rem owed s)
  case Nil
  then show ?case by (auto simp: total_price_def)
next
  case (Cons p ps)
  obtain r k where p: "p = (r, k)" by (cases p)
  from Cons.prems [unfolded p] show ?case
  proof (rule distribute_loop_ConsE)
    fix sp rem1 owed1 s1 o1
    assume sec: "check_section s rtp r k = Inr sp"
      and sub: "SafeMath_sub rem sp = Some rem1"
      and step: "if ps = [] \<or> k \<noteq> snd (hd ps) then payout e k owed1 s = Inr s1 \<and> o1 = 0
        else s1 = s \<and> o1 = owed1"
      and rest: "distribute_loop e rtp ps rem1 o1 s1 = Inr res"
    from step have same: "same_ledger s s1"
      by (auto split: if_splits dest: payout_same_ledger intro: same_ledger_refl)
    from Cons.IH [OF rest] same have "unat rem1 = unat (fst res) + total_price s ps"
      by (simp add: total_price_cong)
    moreover from sub have "unat rem1 = unat rem - unat sp \<and> unat sp \<le> unat rem"
      by (rule unat_SafeMath_sub)
    moreover from sec have "unat sp = piece_price s (r, k)" by (simp add: check_section_Inr)
    ultimately show ?thesis unfolding p total_price_Cons by linarith
  qed
qed

lemma check_fee_Inr:
  "check_fee e rem = Inr price \<Longrightarrow>
     unat price = unat (msg_value e) - unat rem \<and> unat rem \<le> unat (msg_value e)"
  by (auto simp: check_fee_def split: option.splits if_splits dest!: unat_SafeMath_sub)

lemma validatePurchases_price:
  assumes "validatePurchases e purchase pa idxs s = Inr (price, s')"
  shows "unat price = total_price s (pieces_of pa idxs)"
    and "total_price s (pieces_of pa idxs) \<le> unat (msg_value e)"
proof -
  from assms obtain rtp rects rem where
    t: "check_tiling purchase pa idxs = Inr (rtp, rects)" and
    d: "distributePurchaseFunds e rtp rects idxs s = Inr (rem, s')" and
    f: "check_fee e rem = Inr price"
    by (rule validatePurchases_Inr)
  from distribute_loop_total [OF d [unfolded distributePurchaseFunds_def]]
  have "unat (msg_value e) = unat rem + total_price s (pieces_of pa idxs)"
    by (simp add: validatePurchases_pieces(1) [OF t])
  with check_fee_Inr [OF f]
  show "unat price = total_price s (pieces_of pa idxs)"
    and "total_price s (pieces_of pa idxs) \<le> unat (msg_value e)"
    by simp_all
qed

subsection \<open>One transfer for each run of pieces\<close>

lemma payout_sent:
  "payout e k amount s = Inr s' \<Longrightarrow>
     sent s' = sent s @ [(z_owner (ownership s ! unat k), amount)]"
  by (auto simp: payout_def transfer_def emit_def ownership_at_def split: sum.splits if_splits)

lemma distribute_loop_sent:
  "distribute_loop e rtp ((r, k) # rest) rem owed s = Inr res \<Longrightarrow>
     sent (snd res) =
       sent s @ map (pay s) (group_runs ((k, unat owed + piece_price s (r, k)) # priced s rest))"
proof (induction rest arbitrary: r k rem owed s)
  case Nil
  from Nil.prems show ?case
  proof (rule distribute_loop_ConsE)
    fix sp rem1 owed1 s1 o1
    assume sec: "check_section s rtp r k = Inr sp"
      and add: "SafeMath_add owed sp = Some owed1"
      and step: "if [] = [] \<or> k \<noteq> snd (hd []) then payout e k owed1 s = Inr s1 \<and> o1 = 0
        else s1 = s \<and> o1 = owed1"
      and rest: "distribute_loop e rtp [] rem1 o1 s1 = Inr res"
    from step have pay: "payout e k owed1 s = Inr s1" by simp
    from rest have res: "snd res = s1" by auto
    from add sec have "unat owed1 = unat owed + piece_price s (r, k)"
      by (simp add: unat_SafeMath_add check_section_Inr)
    from this [symmetric] have "of_nat (unat owed + piece_price s (r, k)) = owed1"
      by simp
    with payout_sent [OF pay] show ?thesis by (simp add: res priced_def pay_def)
  qed
next
  case (Cons p rest)
  obtain r' k' where p: "p = (r', k')" by (cases p)
  from Cons.prems show ?case
  proof (rule distribute_loop_ConsE)
    fix sp rem1 owed1 s1 o1
    assume sec: "check_section s rtp r k = Inr sp"
      and add: "SafeMath_add owed sp = Some owed1"
      and step: "if p # rest = [] \<or> k \<noteq> snd (hd (p # rest))
        then payout e k owed1 s = Inr s1 \<and> o1 = 0 else s1 = s \<and> o1 = owed1"
      and rest: "distribute_loop e rtp (p # rest) rem1 o1 s1 = Inr res"
    from add sec have owed1: "unat owed1 = unat owed + piece_price s (r, k)"
      by (simp add: unat_SafeMath_add check_section_Inr)
    note IH = Cons.IH [OF rest [unfolded p]]
    show ?thesis
    proof (cases "k = k'")
      case True
      with step p have "s1 = s" "o1 = owed1" by simp_all
      with IH owed1 True show ?thesis by (simp add: p priced_def add.assoc)
    next
      case False
      with step p have pay: "payout e k owed1 s = Inr s1" and o1: "o1 = 0" by simp_all
      from payout_same_ledger [OF pay] have same: "same_ledger s s1" .
      from owed1 [symmetric] have "of_nat (unat owed + piece_price s (r, k)) = owed1"
        by simp
      with IH payout_sent [OF pay] False show ?thesis
        by (simp add: p o1 priced_def pay_cong [OF same] piece_price_cong [OF same] pay_def
              cong: map_cong)
    qed
  qed
qed

lemma distributePurchaseFunds_sent:
  assumes "distributePurchaseFunds e rtp rects idxs s = Inr (rem, s')"
  shows "sent s' = sent s @ map (pay s) (group_runs (priced s (zip rects idxs)))"
proof (cases "zip rects idxs")
  case Nil
  from assms [unfolded distributePurchaseFunds_def Nil] have "s' = s" by simp
  moreover have "priced s (zip rects idxs) = []" by (simp only: Nil priced_def list.map)
  ultimately show ?thesis by simp
next
  case (Cons p ps)
  obtain r k where p: "p = (r, k)" by (cases p)
  from assms have "distribute_loop e rtp ((r, k) # ps) (msg_value e) 0 s = Inr (rem, s')"
    by (simp add: distributePurchaseFunds_def Cons p)
  from distribute_loop_sent [OF this] show ?thesis by (simp add: Cons p priced_def)
qed

lemma group_runs_sum: "sum_list (map snd (group_runs xs)) = sum_list (map snd xs)"
  by (induction xs rule: group_runs.induct) simp_all

lemma group_runs_keys: "fst ` set (group_runs xs) = fst ` set xs"
  by (induction xs rule: group_runs.induct) auto

lemma group_runs_le: "\<forall>x \<in> set (group_runs xs). snd x \<le> sum_list (map snd xs)"
proof -
  have "\<forall>x \<in> set (group_runs xs). snd x \<le> sum_list (map snd (group_runs xs))"
    by (intro ballI member_le_sum_list) auto
  then show ?thesis by (simp add: group_runs_sum)
qed

lemma sum_priced: "sum_list (map snd (priced s ps)) = total_price s ps"
  by (simp add: priced_def total_price_def comp_def)

lemma priced_keys: "fst ` set (priced s ps) = snd ` set ps"
  by (force simp: priced_def)

lemma validatePurchases_sent:
  assumes "validatePurchases e purchase pa idxs s = Inr (price, s')"
  shows "sent s' = sent s @ map (pay s) (group_runs (priced s (pieces_of pa idxs)))"
proof -
  from assms obtain rtp rects rem where
    t: "check_tiling purchase pa idxs = Inr (rtp, rects)" and
    d: "distributePurchaseFunds e rtp rects idxs s = Inr (rem, s')"
    by (rule validatePurchases_Inr)
  from distributePurchaseFunds_sent [OF d] show ?thesis
    by (simp add: validatePurchases_pieces(1) [OF t])
qed


lemma sent_credit: "sent (credit e s) = sent s"
  by (simp add: credit_def)

lemma purchase_sent:
  assumes "purchaseAreaWithData e purchase pa idxs ipfs link ip s = Inr s'"
  shows "sent s' = sent s @ map (pay s) (group_runs (priced s (pieces_of pa idxs)))"
proof -
  from assms obtain price s1 where
    v: "validatePurchases e purchase pa idxs (credit e s) = Inr (price, s1)" and
    sent: "sent s' = sent s1"
    by (rule purchase_Inr)
  from validatePurchases_sent [OF v] sent show ?thesis
    by (simp add: pay_cong [OF same_ledger_credit] priced_cong [OF same_ledger_credit] sent_credit)
qed

lemma purchase_price:
  assumes "purchaseAreaWithData e purchase pa idxs ipfs link ip s = Inr s'"
  shows "last (events s') =
           PlotPurchased (ownershipLength s) (of_nat (total_price s (pieces_of pa idxs))) (msg_sender e)"
    and "total_price s (pieces_of pa idxs) \<le> unat (msg_value e)"
proof -
  from assms obtain price s1 where
    v: "validatePurchases e purchase pa idxs (credit e s) = Inr (price, s1)" and
    ev: "events s' = events s1 @ [PlotPurchased (ownershipLength s1) price (msg_sender e)]"
    by (rule purchase_Inr)
  from purchase_same_ledger [OF v] have "ownershipLength s1 = ownershipLength s"
    by (simp add: ownershipLength_def same_ledger_def)
  moreover from validatePurchases_price(1) [OF v]
  have p: "unat price = total_price s (pieces_of pa idxs)"
    by (simp add: total_price_cong [OF same_ledger_credit])
  from p [symmetric] have "of_nat (total_price s (pieces_of pa idxs)) = price" by simp
  ultimately show "last (events s') =
      PlotPurchased (ownershipLength s) (of_nat (total_price s (pieces_of pa idxs))) (msg_sender e)"
    by (simp add: ev)
  from validatePurchases_price(2) [OF v]
  show "total_price s (pieces_of pa idxs) \<le> unat (msg_value e)"
    by (simp add: total_price_cong [OF same_ledger_credit])
qed


subsection \<open>A piece that is not for sale\<close>








subsection \<open>The fee check\<close>

lemma check_fee_nothing_left:
  assumes "100 \<le> unat (msg_value e)"
  shows "check_fee e 0 =
           (if unat (msg_value e) * 1000 < 2 ^ 256 then Inl InsufficientFee else Inl Overflow)"
proof -
  define fits where "fits \<longleftrightarrow> unat (msg_value e) * 1000 < 2 ^ 256"
  have fee: "unat FEE_IN_THOUSANDS_OF_PERCENT = 1000"
    by (simp add: FEE_IN_THOUSANDS_OF_PERCENT_def)
  have sub: "SafeMath_sub (msg_value e) 0 = Some (msg_value e)"
    by (simp add: SafeMath_sub_def)
  have mul: "SafeMath_mul (msg_value e) FEE_IN_THOUSANDS_OF_PERCENT = Some m \<longleftrightarrow>
      fits \<and> m = msg_value e * FEE_IN_THOUSANDS_OF_PERCENT" for m
    unfolding SafeMath_mul_Some fee fits_def ..
  have "check_fee e 0 = (if fits then Inl InsufficientFee else Inl Overflow)"
  proof (cases fits)
    case False
    have "SafeMath_mul (msg_value e) FEE_IN_THOUSANDS_OF_PERCENT = None"
    proof (cases "SafeMath_mul (msg_value e) FEE_IN_THOUSANDS_OF_PERCENT")
      case (Some m)
      with mul [of m] False show ?thesis by simp
    qed simp
    with False sub show ?thesis by (simp add: check_fee_def)
  next
    case True
    define m where "m = msg_value e * FEE_IN_THOUSANDS_OF_PERCENT"
    from True mul have some: "SafeMath_mul (msg_value e) FEE_IN_THOUSANDS_OF_PERCENT = Some m"
      by (simp add: m_def)
    from unat_SafeMath_mul [OF some] have "unat m = unat (msg_value e) * 1000"
      by (simp only: fee)
    with assms have "100000 \<le> unat m" by simp
    then have "1 \<le> unat m div 100000" by (simp add: le_div_geq)
    moreover have "unat (m div (1000 * 100)) = unat m div 100000" by (simp add: unat_div)
    ultimately have "0 < unat (m div (1000 * 100))" by simp
    then have "\<not> m div (1000 * 100) \<le> 0" by (simp add: word_le_nat_alt)
    with True some sub show ?thesis by (simp add: check_fee_def SafeMath_div_def)
  qed
  then show ?thesis by (simp only: fits_def)
qed

lemma exact_payment_leaves_nothing:
  assumes "distributePurchaseFunds e rtp rects idxs s = Inr (rem, s')"
    and "unat (msg_value e) = total_price s (zip rects idxs)"
  shows "rem = 0"
proof -
  from distribute_loop_total [OF assms(1) [unfolded distributePurchaseFunds_def]] assms(2)
  have "unat rem = 0" by simp
  then show ?thesis by (simp add: unat_eq_0)
qed

lemma validatePurchases_exact_payment:
  assumes "unat (msg_value e) = total_price s (pieces_of pa idxs)"
    and "100 \<le> total_price s (pieces_of pa idxs)"
  shows "isl (validatePurchases e purchase pa idxs s)"
    and "\<not> isl (check_tiling purchase pa idxs) \<Longrightarrow>
         \<not> isl (distributePurchaseFunds e (target_rect purchase) (rects_of pa (length idxs)) idxs s) \<Longrightarrow>
         validatePurchases e purchase pa idxs s =
           (if unat (msg_value e) * 1000 < 2 ^ 256 then Inl InsufficientFee else Inl Overflow)"
proof -
  have fee: "check_fee e 0 =
      (if unat (msg_value e) * 1000 < 2 ^ 256 then Inl InsufficientFee else Inl Overflow)"
    using assms by (intro check_fee_nothing_left) simp
  have *: "validatePurchases e purchase pa idxs s =
      (if unat (msg_value e) * 1000 < 2 ^ 256 then Inl InsufficientFee else Inl Overflow)"
    if t: "check_tiling purchase pa idxs = Inr (rtp, rects)"
      and d: "distributePurchaseFunds e rtp rects idxs s = Inr (rem, s')" for rtp rects rem s'
  proof -
    from assms(1) have "unat (msg_value e) = total_price s (zip rects idxs)"
      by (simp add: validatePurchases_pieces(1) [OF t])
    from exact_payment_leaves_nothing [OF d this] have "rem = 0" .
    with t d fee show ?thesis by (simp add: validatePurchases_def)
  qed
  show "isl (validatePurchases e purchase pa idxs s)"
  proof (cases "check_tiling purchase pa idxs")
    case (Inl err)
    then show ?thesis by (simp add: validatePurchases_def)
  next
    case (Inr tr)
    obtain rtp rects where tr: "tr = (rtp, rects)" by (cases tr)
    show ?thesis
    proof (cases "distributePurchaseFunds e rtp rects idxs s")
      case (Inl err)
      with Inr tr show ?thesis by (simp add: validatePurchases_def)
    next
      case d: (Inr res)
      obtain rem s' where "res = (rem, s')" by (cases res)
      with * [OF Inr [unfolded tr]] d show ?thesis by simp
    qed
  qed
  show "validatePurchases e purchase pa idxs s =
      (if unat (msg_value e) * 1000 < 2 ^ 256 then Inl InsufficientFee else Inl Overflow)"
    if nt: "\<not> isl (check_tiling purchase pa idxs)"
      and nd: "\<not> isl (distributePurchaseFunds e (target_rect purchase) (rects_of pa (length idxs)) idxs s)"
  proof -
    from nt obtain rtp rects where t: "check_tiling purchase pa idxs = Inr (rtp, rects)"
      by (cases "check_tiling purchase pa idxs") auto
    from check_tiling_Inr(2,4) [OF t] nd
    obtain rem s' where "distributePurchaseFunds e rtp rects idxs s = Inr (rem, s')"
      by (cases "distributePurchaseFunds e rtp rects idxs s") auto
    from * [OF t this] show ?thesis .
  qed
qed

subsection \<open>The buyer's address is never examined\<close>

lemma map_sum_id_eq_Inl:
  "map_sum id f x = map_sum id f y \<Longrightarrow> y = Inl err \<Longrightarrow> x = Inl err"
  by (cases x) auto

lemma map_sum_id_eq_Inr:
  "map_sum id f x = map_sum id f y \<Longrightarrow> y = Inr v \<Longrightarrow> \<exists>v'. x = Inr v' \<and> f v' = f v"
  by (cases x) auto

lemma modulo_events_same_ledger:
  "modulo_events s1 = modulo_events s2 \<Longrightarrow> same_ledger s1 s2"
  by (cases s1; cases s2) (simp add: modulo_events_def same_ledger_def)

lemma payout_sender:
  assumes "modulo_events s1 = modulo_events s2"
  shows "map_sum id modulo_events (payout (e\<lparr> msg_sender := b \<rparr>) k amount s2) =
         map_sum id modulo_events (payout e k amount s1)"
  using assms
  by (cases s1; cases s2)
     (simp add: payout_def transfer_def emit_def ownership_at_def modulo_events_def
        split: sum.splits)

lemma distribute_loop_sender:
  "modulo_events s1 = modulo_events s2 \<Longrightarrow>
     map_sum id (map_prod id modulo_events)
       (distribute_loop (e\<lparr> msg_sender := b \<rparr>) rtp ps rem owed s2) =
     map_sum id (map_prod id modulo_events) (distribute_loop e rtp ps rem owed s1)"
proof (induction ps arbitrary: rem owed s1 s2)
  case Nil
  then show ?case by simp
next
  case (Cons p ps)
  obtain r k where p: "p = (r, k)" by (cases p)
  from Cons.prems have sec: "check_section s2 rtp r k = check_section s1 rtp r k"
    by (intro check_section_cong modulo_events_same_ledger)
  show ?case
  proof (cases "check_section s1 rtp r k")
    case (Inl err)
    with sec show ?thesis by (simp add: p)
  next
    case (Inr sp)
    note sp = Inr
    show ?thesis
    proof (cases "SafeMath_sub rem sp")
      case None
      with sec sp show ?thesis by (simp add: p)
    next
      case (Some rem1)
      note rem1 = Some
      show ?thesis
      proof (cases "SafeMath_add owed sp")
        case None
        with sec sp rem1 show ?thesis by (simp add: p)
      next
        case (Some owed1)
        show ?thesis
        proof (cases "ps = [] \<or> k \<noteq> snd (hd ps)")
          case False
          with sec sp rem1 Some Cons.IH [OF Cons.prems] show ?thesis by (simp add: p)
        next
          case True
          note pay = payout_sender [OF Cons.prems, where e = e and b = b and k = k and amount = owed1]
          show ?thesis
          proof (cases "payout e k owed1 s1")
            case (Inl err)
            from map_sum_id_eq_Inl [OF pay this]
            have "payout (e\<lparr> msg_sender := b \<rparr>) k owed1 s2 = Inl err" .
            with Inl sec sp rem1 Some True show ?thesis by (simp add: p)
          next
            case (Inr s1')
            from map_sum_id_eq_Inr [OF pay this] obtain s2' where
              p2: "payout (e\<lparr> msg_sender := b \<rparr>) k owed1 s2 = Inr s2'" and
              m: "modulo_events s2' = modulo_events s1'"
              by auto
            from Cons.IH [OF m [symmetric]] Inr p2 sec sp rem1 Some True
            show ?thesis by (simp add: p)
          qed
        qed
      qed
    qed
  qed
qed

lemma check_fee_sender: "check_fee (e\<lparr> msg_sender := b \<rparr>) rem = check_fee e rem"
  by (simp add: check_fee_def)

lemma validatePurchases_sender:
  "map_sum id (map_prod id modulo_events)
     (validatePurchases (e\<lparr> msg_sender := b \<rparr>) purchase pa idxs s) =
   map_sum id (map_prod id modulo_events) (validatePurchases e purchase pa idxs s)"
proof (cases "check_tiling purchase pa idxs")
  case (Inl err)
  then show ?thesis by (simp add: validatePurchases_def)
next
  case (Inr tr)
  obtain rtp rects where tr: "tr = (rtp, rects)" by (cases tr)
  have d: "map_sum id (map_prod id modulo_events)
       (distributePurchaseFunds (e\<lparr> msg_sender := b \<rparr>) rtp rects idxs s) =
     map_sum id (map_prod id modulo_events) (distributePurchaseFunds e rtp rects idxs s)"
    unfolding distributePurchaseFunds_def by (simp add: distribute_loop_sender)
  show ?thesis
  proof (cases "distributePurchaseFunds e rtp rects idxs s")
    case (Inl err)
    from map_sum_id_eq_Inl [OF d this]
    have "distributePurchaseFunds (e\<lparr> msg_sender := b \<rparr>) rtp rects idxs s = Inl err" .
    with Inl Inr tr show ?thesis by (simp add: validatePurchases_def)
  next
    case dr: (Inr res)
    obtain rem s1 where res: "res = (rem, s1)" by (cases res)
    from map_sum_id_eq_Inr [OF d dr] res obtain s2 where
      d2: "distributePurchaseFunds (e\<lparr> msg_sender := b \<rparr>) rtp rects idxs s = Inr (rem, s2)" and
      m: "modulo_events s2 = modulo_events s1"
      by auto
    from dr res d2 m Inr tr show ?thesis
      by (cases "check_fee e rem") (simp_all add: validatePurchases_def check_fee_sender)
  qed
qed

lemma credit_sender: "credit (e\<lparr> msg_sender := b \<rparr>) s = credit e s"
  by (simp add: credit_def)

lemma purchase_sender:
  "purchaseAreaWithData (e\<lparr> msg_sender := b \<rparr>) purchase pa idxs ipfs link ip s = Inl err \<longleftrightarrow>
   purchaseAreaWithData e purchase pa idxs ipfs link ip s = Inl err"
proof -
  note v = validatePurchases_sender [where e = e and b = b and purchase = purchase and pa = pa
      and idxs = idxs and s = "credit e s"]
  show ?thesis
  proof (cases "validatePurchases e purchase pa idxs (credit e s)")
    case (Inl err')
    from map_sum_id_eq_Inl [OF v this]
    have "validatePurchases (e\<lparr> msg_sender := b \<rparr>) purchase pa idxs (credit e s) = Inl err'" .
    with Inl show ?thesis by (simp add: purchaseAreaWithData_def credit_sender)
  next
    case (Inr res)
    from map_sum_id_eq_Inr [OF v this] obtain res' where
      "validatePurchases (e\<lparr> msg_sender := b \<rparr>) purchase pa idxs (credit e s) = Inr res'"
      by auto
    with Inr show ?thesis
      by (simp add: purchaseAreaWithData_def credit_sender Let_def split: prod.splits)
  qed
qed

subsection \<open>Records stay inside the grid\<close>

lemma constructor_ok: "ledger_ok (constructor e)"
  by (simp add: ledger_ok_def zone_ok_def constructor_def GRID_WIDTH_def GRID_HEIGHT_def)

lemma new_zone_ok:
  assumes "length purchase = 4" and "target_in_bounds (target_rect purchase)"
  shows "zone_ok (new_zone e purchase)"
proof -
  from assms(1) obtain x y w h where p: "purchase = [x, y, w, h]"
    by (auto simp: length_Suc_conv numeral_eq_Suc)
  from assms(2) have "target_in_bounds
      \<lparr> r_x = ucast x, r_y = ucast y, r_w = ucast w, r_h = ucast h \<rparr>"
    by (simp add: p target_rect_def)
  then show ?thesis
    by (simp add: target_in_bounds_iff zone_ok_def new_zone_def p GRID_WIDTH_def GRID_HEIGHT_def)
qed

lemma purchase_ok:
  assumes "purchaseAreaWithData e purchase pa idxs ipfs link ip s = Inr s'" and "ledger_ok s"
  shows "ledger_ok s'"
proof -
  from assms(1) obtain price s1 where
    v: "validatePurchases e purchase pa idxs (credit e s) = Inr (price, s1)" and
    o: "ownership s' = ownership s1 @ [new_zone e purchase]"
    by (rule purchase_Inr)
  from purchase_same_ledger [OF v] have o1: "ownership s1 = ownership s"
    by (simp add: same_ledger_def)
  from v obtain rtp rects where t: "check_tiling purchase pa idxs = Inr (rtp, rects)"
    by (rule validatePurchases_Inr)
  from check_tiling_Inr(1,2,3) [OF t] have "zone_ok (new_zone e purchase)"
    by (intro new_zone_ok) simp_all
  with assms(2) show ?thesis by (simp add: ledger_ok_def o o1)
qed

lemma updateAuction_ownership:
  "updateAuction e zoneIndex price s = Inr s' \<Longrightarrow> ownership s' = ownership s"
  by (auto simp: updateAuction_def setAuctionPrice_def emit_def split: if_splits sum.splits)

lemma withdraw_ownership:
  "withdraw e transferTo s = Inr s' \<Longrightarrow> ownership s' = ownership s"
  by (auto simp: withdraw_def transfer_def Let_def split: if_splits)

lemma run_ok:
  assumes "run e c s = Inr s'" and "ledger_ok s"
  shows "ledger_ok s'"
proof (cases c)
  case (PurchaseAreaWithData purchase pa idxs ipfs link ip)
  with assms show ?thesis by (auto intro: purchase_ok)
next
  case (UpdateAuction zoneIndex price)
  with assms show ?thesis by (auto simp: ledger_ok_def dest: updateAuction_ownership)
next
  case (Withdraw transferTo)
  with assms show ?thesis by (auto simp: ledger_ok_def dest: withdraw_ownership)
qed

lemma transact_ok: "ledger_ok s \<Longrightarrow> ledger_ok (fst (transact e c s))"
  by (cases "run e c s") (auto simp: transact_def intro: run_ok)

lemma replay_ok: "ledger_ok s \<Longrightarrow> ledger_ok (replay s ts)"
  by (induction ts arbitrary: s) (simp_all add: transact_ok)

subsection \<open>The state in which a failing purchase stops\<close>

lemma distribute_loop_stopped_same_ledger:
  "same_ledger s (distribute_loop_stopped e rtp ps rem owed s)"
proof (induction ps arbitrary: rem owed s)
  case Nil
  show ?case by (simp add: same_ledger_refl)
next
  case (Cons p ps)
  obtain r k where p: "p = (r, k)" by (cases p)
  show ?case
  proof (cases "check_section s rtp r k")
    case (Inl err)
    then show ?thesis by (simp add: p same_ledger_refl)
  next
    case (Inr sp)
    note sp = Inr
    show ?thesis
    proof (cases "SafeMath_sub rem sp")
      case None
      with sp show ?thesis by (simp add: p same_ledger_refl)
    next
      case (Some rem1)
      note rem1 = Some
      show ?thesis
      proof (cases "SafeMath_add owed sp")
        case None
        with sp rem1 show ?thesis by (simp add: p same_ledger_refl)
      next
        case (Some owed1)
        show ?thesis
        proof (cases "ps = [] \<or> k \<noteq> snd (hd ps)")
          case False
          with sp rem1 Some Cons.IH [of s] show ?thesis by (simp add: p)
        next
          case True
          show ?thesis
          proof (cases "payout e k owed1 s")
            case (Inl err)
            with sp rem1 Some True show ?thesis by (simp add: p same_ledger_refl)
          next
            case (Inr s1)
            from payout_same_ledger [OF Inr] Cons.IH [of s1 rem1 0]
            have "same_ledger s (distribute_loop_stopped e rtp ps rem1 0 s1)"
              by (rule same_ledger_trans)
            with Inr sp rem1 Some True show ?thesis by (simp add: p)
          qed
        qed
      qed
    qed
  qed
qed

lemma distribute_loop_stopped_result:
  "distribute_loop e rtp ps rem owed s = Inr res \<Longrightarrow>
     distribute_loop_stopped e rtp ps rem owed s = snd res"
proof (induction ps arbitrary: rem owed s)
  case Nil
  then show ?case by auto
next
  case (Cons p ps)
  obtain r k where p: "p = (r, k)" by (cases p)
  from Cons.prems [unfolded p] show ?case
  proof (rule distribute_loop_ConsE)
    fix sp rem1 owed1 s1 o1
    assume sec: "check_section s rtp r k = Inr sp"
      and sub: "SafeMath_sub rem sp = Some rem1"
      and add: "SafeMath_add owed sp = Some owed1"
      and step: "if ps = [] \<or> k \<noteq> snd (hd ps) then payout e k owed1 s = Inr s1 \<and> o1 = 0
        else s1 = s \<and> o1 = owed1"
      and rest: "distribute_loop e rtp ps rem1 o1 s1 = Inr res"
    from Cons.IH [OF rest] sec sub add step show ?thesis
      by (cases "ps = [] \<or> k \<noteq> snd (hd ps)") (simp_all add: p)
  qed
qed

lemma validatePurchases_stopped_same_ledger:
  "same_ledger s (validatePurchases_stopped e purchase pa idxs s)"
  by (auto simp: validatePurchases_stopped_def same_ledger_refl distribute_loop_stopped_same_ledger
        split: sum.splits)

lemma validatePurchases_stopped_result:
  assumes "validatePurchases e purchase pa idxs s = Inr (price, s')"
  shows "validatePurchases_stopped e purchase pa idxs s = s'"
proof -
  from assms obtain rtp rects rem where
    t: "check_tiling purchase pa idxs = Inr (rtp, rects)" and
    d: "distributePurchaseFunds e rtp rects idxs s = Inr (rem, s')"
    by (rule validatePurchases_Inr)
  from distribute_loop_stopped_result [OF d [unfolded distributePurchaseFunds_def]] t
  show ?thesis by (simp add: validatePurchases_stopped_def)
qed

lemma purchase_stopped_result:
  "purchaseAreaWithData e purchase pa idxs ipfs link ip s = Inr s' \<Longrightarrow>
     purchaseAreaWithData_stopped e purchase pa idxs ipfs link ip s = s'"
  by (auto simp: purchaseAreaWithData_def purchaseAreaWithData_stopped_def Let_def
        split: sum.splits)

lemma purchase_stopped_abort:
  assumes "purchaseAreaWithData e purchase pa idxs ipfs link ip s = Inl err"
  shows "purchaseAreaWithData_stopped e purchase pa idxs ipfs link ip s =
           validatePurchases_stopped e purchase pa idxs (credit e s)"
    and "validatePurchases e purchase pa idxs (credit e s) = Inl err"
  using assms
  by (auto simp: purchaseAreaWithData_def purchaseAreaWithData_stopped_def Let_def
        split: sum.splits)


subsection \<open>A fee that rounds down to nothing\<close>

lemma check_fee_rounds_to_zero:
  assumes "unat (msg_value e) < 100"
  shows "check_fee e 0 = Inr (msg_value e)"
proof -
  have fee: "unat FEE_IN_THOUSANDS_OF_PERCENT = 1000"
    by (simp add: FEE_IN_THOUSANDS_OF_PERCENT_def)
  have sub: "SafeMath_sub (msg_value e) 0 = Some (msg_value e)"
    by (simp add: SafeMath_sub_def)
  define m where "m = msg_value e * FEE_IN_THOUSANDS_OF_PERCENT"
  from assms have small: "unat (msg_value e) * 1000 < 100000" by simp
  also have "(100000 :: nat) < 2 ^ 256" by simp
  finally have mul: "SafeMath_mul (msg_value e) FEE_IN_THOUSANDS_OF_PERCENT = Some m"
    by (simp add: SafeMath_mul_Some fee m_def)
  from unat_SafeMath_mul [OF mul] have "unat m = unat (msg_value e) * 1000" by (simp only: fee)
  with small have "unat m div 100000 = 0" by simp
  moreover have "unat (m div (1000 * 100)) = unat m div 100000" by (simp add: unat_div)
  ultimately have "unat (m div (1000 * 100)) = 0" by simp
  then have "m div (1000 * 100) = 0" by (simp add: unat_eq_0)
  with sub mul show ?thesis by (simp add: check_fee_def SafeMath_div_def)
qed

lemma validatePurchases_small_exact_payment:
  assumes "unat (msg_value e) = total_price s (pieces_of pa idxs)"
    and "total_price s (pieces_of pa idxs) < 100"
    and nt: "\<not> isl (check_tiling purchase pa idxs)"
    and nd: "\<not> isl (distributePurchaseFunds e (target_rect purchase) (rects_of pa (length idxs)) idxs s)"
  shows "\<not> isl (validatePurchases e purchase pa idxs s)"
proof -
  from nt obtain rtp rects where t: "check_tiling purchase pa idxs = Inr (rtp, rects)"
    by (cases "check_tiling purchase pa idxs") auto
  from check_tiling_Inr(2,4) [OF t] nd
  obtain rem s' where d: "distributePurchaseFunds e rtp rects idxs s = Inr (rem, s')"
    by (cases "distributePurchaseFunds e rtp rects idxs s") auto
  from assms(1) have "unat (msg_value e) = total_price s (zip rects idxs)"
    by (simp add: validatePurchases_pieces(1) [OF t])
  from exact_payment_leaves_nothing [OF d this] have "rem = 0" .
  moreover from assms(1,2) have "check_fee e 0 = Inr (msg_value e)"
    by (intro check_fee_rounds_to_zero) simp
  ultimately show ?thesis using t d by (simp add: validatePurchases_def)
qed

subsection \<open>What each seller receives\<close>

lemma group_runs_filter_sum:
  "sum_list (map snd (filter (\<lambda>g. Q (fst g)) (group_runs xs))) =
   sum_list (map snd (filter (\<lambda>g. Q (fst g)) xs))"
  by (induction xs rule: group_runs.induct) simp_all

lemma priced_filter:
  "filter (\<lambda>g. Q (fst g)) (priced s ps) = priced s (filter (\<lambda>p. Q (snd p)) ps)"
  by (induction ps) (simp_all add: priced_def)

lemma paid_to_pay:
  assumes "\<forall>g \<in> set gs. snd g < 2 ^ 256"
  shows "paid_to a (map (pay s) gs) =
           sum_list (map snd (filter (\<lambda>g. z_owner (ownership s ! unat (fst g)) = a) gs))"
  using assms
proof (induction gs)
  case Nil
  show ?case by (simp add: paid_to_def wei_of_def)
next
  case (Cons g gs)
  then have "unat (of_nat (snd g) :: uint256) = snd g" by (simp add: unat_of_nat)
  with Cons show ?case by (simp add: paid_to_def wei_of_def pay_def)
qed

lemma purchase_paid_to:
  assumes "purchaseAreaWithData e purchase pa idxs ipfs link ip s = Inr s'"
  shows "paid_to a (sent_since s s') = total_price s (pieces_owned_by s a (pieces_of pa idxs))"
proof -
  let ?ps = "pieces_of pa idxs"
  let ?gs = "group_runs (priced s ?ps)"
  have "unat (msg_value e) < 2 ^ 256" using unsigned_less [of "msg_value e"] by simp
  with purchase_price(2) [OF assms] have "total_price s ?ps < 2 ^ 256" by simp
  with group_runs_le [of "priced s ?ps"]
  have "\<forall>g \<in> set ?gs. snd g < 2 ^ 256" by (fastforce simp: sum_priced)
  from paid_to_pay [OF this]
  have "paid_to a (map (pay s) ?gs) =
      sum_list (map snd (filter (\<lambda>g. z_owner (ownership s ! unat (fst g)) = a) ?gs))" .
  also have "\<dots> = sum_list (map snd (filter (\<lambda>g. z_owner (ownership s ! unat (fst g)) = a) (priced s ?ps)))"
    by (rule group_runs_filter_sum)
  also have "\<dots> = total_price s (pieces_owned_by s a ?ps)"
    using priced_filter [where Q = "\<lambda>k. z_owner (ownership s ! unat k) = a" and s = s and ps = "?ps"]
    by (simp add: sum_priced pieces_owned_by_def)
  finally show ?thesis by (simp add: sent_since_def purchase_sent [OF assms])
qed

subsection \<open>Evaluating the example transactions\<close>

text \<open>The definitions a concrete call unfolds to, for evaluation by the simplifier.\<close>

lemmas eval_defs =
  purchaseAreaWithData_def validatePurchases_def check_tiling_def target_in_bounds_def
  rects_of_def rect_at_def SafeMath_mul_def SafeMath_add_def SafeMath_sub_def SafeMath_div_def
  doRectanglesOverlap_def computeRectOverlap_def Rect_overflows_def distributePurchaseFunds_def
  check_section_def check_fee_def payout_def transfer_def emit_def credit_def ownership_at_def
  rect_of_zone_def getPriceOfAuctionedZone_def constructor_def GRID_WIDTH_def GRID_HEIGHT_def
  MAXIMUM_PURCHASE_AREA_def INITIAL_AUCTION_PRICE_def FEE_IN_THOUSANDS_OF_PERCENT_def
  ownershipLength_def push_hole_def Let_def genesis_def env_of_def admin_def alice_def bob_def

lemma first_purchase_ok: "first_purchase = Inr after_first"
proof -
  have "\<not> isl first_purchase" by (simp add: first_purchase_def eval_defs)
  then show ?thesis by (simp add: after_first_def)
qed

lemma after_first_fields:
  "ownership after_first =
     [\<lparr> z_x = 0, z_y = 0, z_w = 250, z_h = 250, z_owner = admin \<rparr>,
      \<lparr> z_x = 10, z_y = 10, z_w = 5, z_h = 5, z_owner = alice \<rparr>]"
  "holes after_first = (\<lambda>_. [])(0 := [1])"
  "tokenIdToAuction after_first = (\<lambda>_. 0)(0 := 20000000000000, 1 := 1)"
  "balance after_first = 5000000000000"
  "sent after_first = [(admin, 500000000000000)]"
  "owner after_first = admin"
  by (simp_all add: after_first_def first_purchase_def eval_defs fun_eq_iff)

section \<open>The claims\<close>

text \<open>
  C1. A call to purchaseAreaWithData that fails, for whatever reason, leaves the whole
  state as it was before the call. The code itself has written nothing to the records, the
  holes, the prices or the metadata when it aborts: every write of lines 95-120 comes after
  the last check, and the settlement loop only sends ether and emits events. What it has done
  by then (the value credited, the sellers paid so far, their events) is undone with the
  aborted transaction, so the state after it is the state before it.
\<close>

theorem purchase_failure_leaves_state:
  assumes "purchaseAreaWithData e purchase pa idxs ipfs link ip s = Inl err"
  shows "ownership (purchaseAreaWithData_stopped e purchase pa idxs ipfs link ip s) = ownership s \<and>
         holes (purchaseAreaWithData_stopped e purchase pa idxs ipfs link ip s) = holes s \<and>
         tokenIdToAuction (purchaseAreaWithData_stopped e purchase pa idxs ipfs link ip s)
           = tokenIdToAuction s \<and>
         data (purchaseAreaWithData_stopped e purchase pa idxs ipfs link ip s) = data s \<and>
         transact e (PurchaseAreaWithData purchase pa idxs ipfs link ip) s = (s, Some err)"
proof -
  have "same_ledger (credit e s) (validatePurchases_stopped e purchase pa idxs (credit e s))"
    by (rule validatePurchases_stopped_same_ledger)
  with same_ledger_credit
  have "same_ledger s (validatePurchases_stopped e purchase pa idxs (credit e s))"
    by (rule same_ledger_trans)
  then have "same_ledger s (purchaseAreaWithData_stopped e purchase pa idxs ipfs link ip s)"
    by (simp only: purchase_stopped_abort(1) [OF assms])
  moreover from assms
  have "transact e (PurchaseAreaWithData purchase pa idxs ipfs link ip) s = (s, Some err)"
    by (simp add: transact_def)
  ultimately show ?thesis by (simp add: same_ledger_def)
qed

theorem purchase_failure_leaves_state_witness:
  "unpaid_fee_purchase = Inl InsufficientFee \<and>
   sent (purchaseAreaWithData_stopped (env_of alice 500000000000000)
          [10, 10, 5, 5] [10, 10, 5, 5] [0] ''hash'' ''url'' 1 genesis)
     = [(admin, 500000000000000)] \<and>
   holes (purchaseAreaWithData_stopped (env_of alice 500000000000000)
          [10, 10, 5, 5] [10, 10, 5, 5] [0] ''hash'' ''url'' 1 genesis)
     = holes genesis \<and>
   transact (env_of alice 500000000000000)
     (PurchaseAreaWithData [10, 10, 5, 5] [10, 10, 5, 5] [0] ''hash'' ''url'' 1) genesis
     = (genesis, Some InsufficientFee)"
proof -
  have failed: "purchaseAreaWithData (env_of alice 500000000000000)
      [10, 10, 5, 5] [10, 10, 5, 5] [0] ''hash'' ''url'' 1 genesis = Inl InsufficientFee"
    by (simp add: eval_defs)
  have paid: "sent (purchaseAreaWithData_stopped (env_of alice 500000000000000)
          [10, 10, 5, 5] [10, 10, 5, 5] [0] ''hash'' ''url'' 1 genesis)
     = [(admin, 500000000000000)]"
    by (simp add: purchaseAreaWithData_stopped_def validatePurchases_stopped_def eval_defs)
  from purchase_failure_leaves_state [OF failed] failed paid
  show ?thesis by (simp add: unpaid_fee_purchase_def)
qed

text \<open>
  C2 (amended). The validator has no check on the grouping of owners: a purchase that lists
  pieces of the same record at positions that are not neighbours is not rejected for it. In
  every successful purchase each run of neighbouring pieces attributed to the same record is
  paid by one transfer of the run's total to that record's owner, in the order of the tiling,
  so an owner whose pieces form several runs is paid once for each run.
\<close>

theorem payouts_follow_runs:
  assumes "purchaseAreaWithData e purchase pa idxs ipfs link ip s = Inr s'"
  shows "sent_since s s' = map (pay s) (group_runs (priced s (pieces_of pa idxs)))"
  by (simp add: sent_since_def purchase_sent [OF assms])

theorem payouts_follow_runs_witness:
  "sent_since genesis after_first = [(admin, 500000000000000)]"
proof -
  have "map (pay genesis) (group_runs (priced genesis (pieces_of [10, 10, 5, 5] [0])))
      = [(admin, 500000000000000)]"
    by (simp add: pay_def priced_def pieces_of_def piece_price_def eval_defs)
  with payouts_follow_runs [OF first_purchase_ok [unfolded first_purchase_def]]
  show ?thesis by simp
qed

theorem noncontiguous_owner_counterexample:
  "first_purchase = Inr after_first \<and>
   \<not> isl noncontiguous_purchase \<and>
   sent_since after_first (projr noncontiguous_purchase) =
     [(admin, 20000000000000), (alice, 5), (admin, 20000000000000)]"
proof -
  have "\<not> isl noncontiguous_purchase"
    by (simp add: noncontiguous_purchase_def eval_defs after_first_fields)
  moreover have "sent_since after_first (projr noncontiguous_purchase) =
     [(admin, 20000000000000), (alice, 5), (admin, 20000000000000)]"
    by (simp add: sent_since_def noncontiguous_purchase_def eval_defs after_first_fields)
  ultimately show ?thesis using first_purchase_ok by simp
qed

text \<open>
  C3 (amended). The first precondition of the validator admits a target rectangle exactly
  when it has positive width and height, lies within the 250 x 250 grid, and has an area
  strictly below MAXIMUM_PURCHASE_AREA = 1000 (all as inequalities between unbounded
  numbers); every other target is rejected with BoundsError. So area 999 passes and area
  1000 is rejected.
\<close>

theorem target_admitted_iff_area_below_maximum:
  "(target_in_bounds (target_rect [x, y, w, h]) \<longleftrightarrow>
      0 < unat w \<and> 0 < unat h \<and> unat x + unat w \<le> 250 \<and> unat y + unat h \<le> 250 \<and>
      unat w * unat h < 1000) \<and>
   (\<not> target_in_bounds (target_rect [x, y, w, h]) \<longrightarrow>
      validatePurchases e [x, y, w, h] pa idxs s = Inl BoundsError)"
  by (simp add: target_rect_def target_in_bounds_iff validatePurchases_def check_tiling_def)

theorem target_admitted_iff_area_below_maximum_witness:
  "target_in_bounds (target_rect [0, 0, 27, 37]) \<and>
   unat (27 :: uint24) * unat (37 :: uint24) = 999 \<and>
   \<not> target_in_bounds (target_rect [0, 0, 20, 50]) \<and>
   validatePurchases (env_of alice 0) [0, 0, 20, 50] [] [] genesis = Inl BoundsError"
  using target_admitted_iff_area_below_maximum [of 0 0 27 37 "env_of alice 0" "[]" "[]" genesis]
    target_admitted_iff_area_below_maximum [of 0 0 20 50 "env_of alice 0" "[]" "[]" genesis]
  by simp

theorem area_equal_to_maximum_counterexample:
  "unat (0 :: uint24) + unat (25 :: uint24) \<le> 250 \<and>
   unat (0 :: uint24) + unat (40 :: uint24) \<le> 250 \<and>
   unat (25 :: uint24) * unat (40 :: uint24) \<le> unat MAXIMUM_PURCHASE_AREA \<and>
   \<not> target_in_bounds (target_rect [0, 0, 25, 40]) \<and>
   purchaseAreaWithData (env_of alice 20200000000000000) [0, 0, 25, 40] [0, 0, 25, 40] [0]
     ''hash'' ''url'' 1 genesis = Inl BoundsError"
  by (simp add: target_rect_def eval_defs)

text \<open>
  C4 (amended). When the payment equals the total price exactly and the total price is at
  least 100 wei, so that the required fee (total price * 1000 div 100000) is not zero, the
  purchase fails; when the tiling checks and the payouts pass, it fails at the fee check: with
  InsufficientFee, or with Overflow when 1000 times the price does not fit 256 bits. When the
  total price is below 100 wei the required fee rounds down to zero, the fee check passes,
  and the purchase succeeds whenever the tiling checks and the payouts pass.
\<close>

theorem exact_payment_fails_fee_check:
  assumes "unat (msg_value e) = total_price s (pieces_of pa idxs)"
  shows "(100 \<le> total_price s (pieces_of pa idxs) \<longrightarrow>
           isl (purchaseAreaWithData e purchase pa idxs ipfs link ip s) \<and>
           (\<not> isl (check_tiling purchase pa idxs) \<and>
            \<not> isl (distributePurchaseFunds e (target_rect purchase) (rects_of pa (length idxs)) idxs
                     (credit e s)) \<longrightarrow>
            purchaseAreaWithData e purchase pa idxs ipfs link ip s =
              (if unat (msg_value e) * 1000 < 2 ^ 256 then Inl InsufficientFee else Inl Overflow))) \<and>
         (total_price s (pieces_of pa idxs) < 100 \<longrightarrow>
           check_fee e 0 = Inr (msg_value e) \<and>
           (\<not> isl (check_tiling purchase pa idxs) \<and>
            \<not> isl (distributePurchaseFunds e (target_rect purchase) (rects_of pa (length idxs)) idxs
                     (credit e s)) \<longrightarrow>
            \<not> isl (purchaseAreaWithData e purchase pa idxs ipfs link ip s)))"
proof -
  have 1: "unat (msg_value e) = total_price (credit e s) (pieces_of pa idxs)"
    using assms by (simp add: total_price_cong [OF same_ledger_credit])
  have tp: "total_price (credit e s) (pieces_of pa idxs) = total_price s (pieces_of pa idxs)"
    by (rule total_price_cong [OF same_ledger_credit])
  have big: "isl (purchaseAreaWithData e purchase pa idxs ipfs link ip s) \<and>
           (\<not> isl (check_tiling purchase pa idxs) \<and>
            \<not> isl (distributePurchaseFunds e (target_rect purchase) (rects_of pa (length idxs)) idxs
                     (credit e s)) \<longrightarrow>
            purchaseAreaWithData e purchase pa idxs ipfs link ip s =
              (if unat (msg_value e) * 1000 < 2 ^ 256 then Inl InsufficientFee else Inl Overflow))"
    if h: "100 \<le> total_price s (pieces_of pa idxs)"
  proof -
    from h have 2: "100 \<le> total_price (credit e s) (pieces_of pa idxs)" by (simp only: tp)
    from validatePurchases_exact_payment(1) [OF 1 2, of purchase]
    have "isl (purchaseAreaWithData e purchase pa idxs ipfs link ip s)"
      by (auto simp: purchaseAreaWithData_def isl_def)
    moreover have "purchaseAreaWithData e purchase pa idxs ipfs link ip s =
              (if unat (msg_value e) * 1000 < 2 ^ 256 then Inl InsufficientFee else Inl Overflow)"
      if "\<not> isl (check_tiling purchase pa idxs)"
        and "\<not> isl (distributePurchaseFunds e (target_rect purchase) (rects_of pa (length idxs)) idxs
                     (credit e s))"
      using validatePurchases_exact_payment(2) [OF 1 2 that]
      by (simp add: purchaseAreaWithData_def)
    ultimately show ?thesis by blast
  qed
  have small: "check_fee e 0 = Inr (msg_value e) \<and>
           (\<not> isl (check_tiling purchase pa idxs) \<and>
            \<not> isl (distributePurchaseFunds e (target_rect purchase) (rects_of pa (length idxs)) idxs
                     (credit e s)) \<longrightarrow>
            \<not> isl (purchaseAreaWithData e purchase pa idxs ipfs link ip s))"
    if h: "total_price s (pieces_of pa idxs) < 100"
  proof -
    from h have 2: "total_price (credit e s) (pieces_of pa idxs) < 100" by (simp only: tp)
    from assms h have "check_fee e 0 = Inr (msg_value e)"
      by (intro check_fee_rounds_to_zero) simp
    moreover have "\<not> isl (purchaseAreaWithData e purchase pa idxs ipfs link ip s)"
      if "\<not> isl (check_tiling purchase pa idxs)"
        and "\<not> isl (distributePurchaseFunds e (target_rect purchase) (rects_of pa (length idxs)) idxs
                     (credit e s))"
      using validatePurchases_small_exact_payment [OF 1 2 that]
      by (auto simp: purchaseAreaWithData_def Let_def split: sum.splits)
    ultimately show ?thesis by blast
  qed
  from big small show ?thesis by blast
qed

theorem exact_payment_fails_fee_check_witness:
  "total_price genesis (pieces_of [10, 10, 5, 5] [0]) = 500000000000000 \<and>
   unpaid_fee_purchase = Inl InsufficientFee \<and>
   total_price cheap (pieces_of [0, 0, 3, 3] [0]) = 9 \<and>
   \<not> isl small_purchase"
proof -
  have t: "total_price genesis (pieces_of [10, 10, 5, 5] [0]) = 500000000000000"
    by (simp add: total_price_def pieces_of_def piece_price_def eval_defs)
  have v: "unat (msg_value (env_of alice 500000000000000)) = 500000000000000"
    by (simp add: env_of_def)
  have c: "\<not> isl (check_tiling [10, 10, 5, 5] [10, 10, 5, 5] [0])"
    by (simp add: eval_defs)
  have d: "\<not> isl (distributePurchaseFunds (env_of alice 500000000000000)
      (target_rect [10, 10, 5, 5]) (rects_of [10, 10, 5, 5] (length [0 :: uint256])) [0]
      (credit (env_of alice 500000000000000) genesis))"
    by (simp add: target_rect_def eval_defs)
  from exact_payment_fails_fee_check [where e = "env_of alice 500000000000000" and s = genesis
      and pa = "[10, 10, 5, 5]" and idxs = "[0]" and purchase = "[10, 10, 5, 5]"
      and ipfs = "''hash''" and link = "''url''" and ip = 1] t v c d
  have big: "unpaid_fee_purchase = Inl InsufficientFee"
    by (simp add: unpaid_fee_purchase_def)
  have t': "total_price cheap (pieces_of [0, 0, 3, 3] [0]) = 9"
    by (simp add: cheap_def total_price_def pieces_of_def piece_price_def
          updateAuction_def setAuctionPrice_def eval_defs)
  have v': "unat (msg_value (env_of alice 9)) = 9" by (simp add: env_of_def)
  have c': "\<not> isl (check_tiling [0, 0, 3, 3] [0, 0, 3, 3] [0])"
    by (simp add: eval_defs)
  have d': "\<not> isl (distributePurchaseFunds (env_of alice 9)
      (target_rect [0, 0, 3, 3]) (rects_of [0, 0, 3, 3] (length [0 :: uint256])) [0]
      (credit (env_of alice 9) cheap))"
    by (simp add: target_rect_def cheap_def updateAuction_def setAuctionPrice_def eval_defs)
  from exact_payment_fails_fee_check [where e = "env_of alice 9" and s = cheap
      and pa = "[0, 0, 3, 3]" and idxs = "[0]" and purchase = "[0, 0, 3, 3]"
      and ipfs = "''hash''" and link = "''url''" and ip = 1] t' v' c' d'
  have small: "\<not> isl small_purchase"
    by (simp add: small_purchase_def)
  from t big t' small show ?thesis by blast
qed

theorem exact_payment_counterexample:
  "updateAuction (env_of admin 0) 0 1 genesis = Inr cheap \<and>
   total_price cheap (pieces_of [0, 0, 1, 1] [0]) = 1 \<and>
   unat (msg_value (env_of alice 1)) = 1 \<and>
   FEE_IN_THOUSANDS_OF_PERCENT \<noteq> 0 \<and>
   \<not> isl cheap_purchase"
proof -
  have u: "\<not> isl (updateAuction (env_of admin 0) 0 1 genesis)"
    by (simp add: updateAuction_def setAuctionPrice_def eval_defs)
  then have "updateAuction (env_of admin 0) 0 1 genesis = Inr cheap" by (simp add: cheap_def)
  moreover have "total_price cheap (pieces_of [0, 0, 1, 1] [0]) = 1"
    by (simp add: cheap_def total_price_def pieces_of_def piece_price_def
          updateAuction_def setAuctionPrice_def eval_defs)
  moreover have "\<not> isl cheap_purchase"
    by (simp add: cheap_purchase_def cheap_def updateAuction_def setAuctionPrice_def eval_defs)
  ultimately show ?thesis by (simp add: env_of_def FEE_IN_THOUSANDS_OF_PERCENT_def)
qed



text \<open>
  C6 (amended). After a successful purchase the id of the new record has been appended
  to the hole list of a record once for each piece of the tiling attributed to it (an owner
  referenced by n pieces gains n entries, not one), every record no piece is attributed to
  keeps its hole list, and the new record's own hole list is empty.
\<close>

theorem holes_after_purchase:
  assumes "purchaseAreaWithData e purchase pa idxs ipfs link ip s = Inr s'"
    and "length (ownership s) < 2 ^ 256"
  shows "holes s' k =
           (if k = ownershipLength s then []
            else holes s k @ replicate (count_list idxs k) (ownershipLength s))"
proof -
  from assms(1) obtain price s1 where
    v: "validatePurchases e purchase pa idxs (credit e s) = Inr (price, s1)" and
    h: "holes s' = (\<lambda>k. (if k = ownershipLength s1 then [] else holes s1 k)
                        @ replicate (count_list idxs k) (ownershipLength s1))"
    by (rule purchase_Inr)
  from purchase_same_ledger [OF v] have same: "ownership s1 = ownership s" "holes s1 = holes s"
    by (simp_all add: same_ledger_def)
  then have n: "ownershipLength s1 = ownershipLength s" by (simp add: ownershipLength_def)
  from assms(2) have u: "unat (ownershipLength s) = length (ownership s)"
    by (simp add: ownershipLength_def unat_of_nat)
  from validatePurchases_indices [OF v] have "\<forall>k \<in> set idxs. unat k < length (ownership s)"
    by (simp add: credit_def)
  with u have "ownershipLength s \<notin> set idxs" by auto
  then have "count_list idxs (ownershipLength s) = 0" by (simp add: count_list_0_iff)
  then show ?thesis by (simp add: h n same)
qed

theorem holes_after_purchase_witness:
  "holes after_first 0 = [1] \<and> holes after_first 1 = [] \<and> holes after_first 2 = []"
proof -
  have l: "length (ownership genesis) < 2 ^ 256" by (simp add: genesis_def constructor_def)
  have n: "ownershipLength genesis = 1" "holes genesis = (\<lambda>_. [])"
    by (simp_all add: ownershipLength_def genesis_def constructor_def fun_eq_iff)
  from holes_after_purchase [OF first_purchase_ok [unfolded first_purchase_def] l, of 0]
    holes_after_purchase [OF first_purchase_ok [unfolded first_purchase_def] l, of 1]
    holes_after_purchase [OF first_purchase_ok [unfolded first_purchase_def] l, of 2]
  show ?thesis by (simp add: n)
qed

theorem one_hole_per_owner_counterexample:
  "\<not> isl two_piece_purchase \<and>
   holes genesis 0 = [] \<and>
   holes (projr two_piece_purchase) 0 = [1, 1]"
  by (simp add: two_piece_purchase_def eval_defs)

text \<open>
  C7. Every record in the ledger, after the constructor and any sequence of transactions
  (purchases, price updates, withdrawals, failed or not), has positive width and height and
  lies inside the grid: x + w \<le> GRID_WIDTH and y + h \<le> GRID_HEIGHT as sums of unbounded
  numbers.
\<close>

theorem records_stay_in_grid:
  "\<forall>z \<in> set (ownership (replay (constructor e0) ts)).
     0 < unat (z_w z) \<and> 0 < unat (z_h z) \<and>
     unat (z_x z) + unat (z_w z) \<le> unat GRID_WIDTH \<and>
     unat (z_y z) + unat (z_h z) \<le> unat GRID_HEIGHT"
  using replay_ok [OF constructor_ok, of e0 ts]
  by (simp add: ledger_ok_def list_all_iff zone_ok_def)

theorem records_stay_in_grid_witness:
  "replay (constructor (env_of admin 0))
     [(env_of alice 505000000000000,
       PurchaseAreaWithData [10, 10, 5, 5] [10, 10, 5, 5] [0] ''hash'' ''url'' 1)] = after_first \<and>
   ownership after_first ! 1 = \<lparr> z_x = 10, z_y = 10, z_w = 5, z_h = 5, z_owner = alice \<rparr> \<and>
   unat (10 :: uint24) + unat (5 :: uint24) \<le> unat GRID_WIDTH \<and>
   unat (10 :: uint24) + unat (5 :: uint24) \<le> unat GRID_HEIGHT"
proof -
  have r: "replay (constructor (env_of admin 0))
     [(env_of alice 505000000000000,
       PurchaseAreaWithData [10, 10, 5, 5] [10, 10, 5, 5] [0] ''hash'' ''url'' 1)] = after_first"
    using first_purchase_ok
    by (simp add: transact_def first_purchase_def genesis_def)
  have m: "\<lparr> z_x = 10, z_y = 10, z_w = 5, z_h = 5, z_owner = alice \<rparr> \<in> set (ownership after_first)"
    by (simp add: after_first_fields)
  from records_stay_in_grid [of "env_of admin 0" "[(env_of alice 505000000000000,
       PurchaseAreaWithData [10, 10, 5, 5] [10, 10, 5, 5] [0] ''hash'' ''url'' 1)]",
       unfolded r, THEN bspec, OF m]
  have b: "unat (10 :: uint24) + unat (5 :: uint24) \<le> unat GRID_WIDTH \<and>
      unat (10 :: uint24) + unat (5 :: uint24) \<le> unat GRID_HEIGHT"
    by simp
  have n: "ownership after_first ! 1 = \<lparr> z_x = 10, z_y = 10, z_w = 5, z_h = 5, z_owner = alice \<rparr>"
    by (simp add: after_first_fields)
  from r n b show ?thesis by blast
qed

text \<open>
  C8. The sums x + w and y + h of lines 311-312 and 188-189 are computed with the plain
  \<open>+\<close> of \<^verbatim>\<open>uint256\<close>. For the piece at x = 2^256 - 1 of width 2 the sum wraps to 1,
  the piece passes as lying inside the 2 x 1 target at the origin, and the purchase
  succeeds instead of failing with Overflow.
\<close>

theorem wrapping_sum_accepted:
  "2 ^ 256 \<le> unat (115792089237316195423570985008687907853269984665640564039457584007913129639935 :: uint256)
              + unat (2 :: uint256) \<and>
   (115792089237316195423570985008687907853269984665640564039457584007913129639935 :: uint256) + 2 = 1 \<and>
   \<not> isl wrapping_purchase \<and>
   ownership (projr wrapping_purchase) =
     [\<lparr> z_x = 0, z_y = 0, z_w = 250, z_h = 250, z_owner = admin \<rparr>,
      \<lparr> z_x = 0, z_y = 0, z_w = 2, z_h = 1, z_owner = alice \<rparr>]"
  by (simp add: wrapping_purchase_def eval_defs)

text \<open>
  C9. After a successful purchase, the record at the index that was the record count
  before the call is the submitted target rectangle with the buyer as owner, and the
  record count has grown by exactly one (the earlier records are untouched).
\<close>

theorem purchase_roundtrip:
  assumes "purchaseAreaWithData e purchase pa idxs ipfs link ip s = Inr s'"
    and "length (ownership s) < 2 ^ 256"
  shows "ownership_at s' (ownershipLength s) =
           Inr \<lparr> z_x = purchase ! 0, z_y = purchase ! 1, z_w = purchase ! 2, z_h = purchase ! 3,
                 z_owner = msg_sender e \<rparr> \<and>
         length purchase = 4 \<and>
         ownershipLength s' = ownershipLength s + 1 \<and>
         ownership s' = ownership s @ [new_zone e purchase]"
proof -
  from assms(1) obtain price s1 where
    v: "validatePurchases e purchase pa idxs (credit e s) = Inr (price, s1)" and
    o: "ownership s' = ownership s1 @ [new_zone e purchase]"
    by (rule purchase_Inr)
  from purchase_same_ledger [OF v] have o1: "ownership s1 = ownership s"
    by (simp add: same_ledger_def)
  from v have len: "length purchase = 4"
    by (elim validatePurchases_Inr) (rule check_tiling_Inr)
  from assms(2) have "unat (ownershipLength s) = length (ownership s)"
    by (simp add: ownershipLength_def unat_of_nat)
  then have "ownership_at s' (ownershipLength s) = Inr (new_zone e purchase)"
    by (simp add: ownership_at_def o o1)
  with len o o1 show ?thesis by (simp add: new_zone_def ownershipLength_def)
qed

theorem purchase_roundtrip_witness:
  "ownership_at after_first 1 =
     Inr \<lparr> z_x = 10, z_y = 10, z_w = 5, z_h = 5, z_owner = alice \<rparr> \<and>
   ownershipLength genesis = 1 \<and> ownershipLength after_first = 2"
proof -
  have l: "length (ownership genesis) < 2 ^ 256" by (simp add: genesis_def constructor_def)
  have n: "ownershipLength genesis = 1" by (simp add: ownershipLength_def genesis_def constructor_def)
  from purchase_roundtrip [OF first_purchase_ok [unfolded first_purchase_def] l] n
  show ?thesis by (simp add: env_of_def)
qed

text \<open>
  C10. No check looks at the buyer's address: whether a purchase fails, and with which
  error, is the same whoever sends it. In a successful purchase every address, the buyer's
  included, is sent exactly the sum of the prices of the pieces attributed to records it
  owns; a buyer who owns a record that pieces are attributed to is among those paid, and
  receives the price of those pieces.
\<close>

theorem no_self_purchase_restriction:
  "(purchaseAreaWithData (e\<lparr> msg_sender := b \<rparr>) purchase pa idxs ipfs link ip s = Inl err \<longleftrightarrow>
    purchaseAreaWithData e purchase pa idxs ipfs link ip s = Inl err) \<and>
   (purchaseAreaWithData e purchase pa idxs ipfs link ip s = Inr s' \<longrightarrow>
    paid_to a (sent_since s s') = total_price s (pieces_owned_by s a (pieces_of pa idxs))) \<and>
   (purchaseAreaWithData e purchase pa idxs ipfs link ip s = Inr s' \<and> k \<in> set idxs \<and>
      z_owner (ownership s ! unat k) = msg_sender e \<longrightarrow>
    msg_sender e \<in> fst ` set (sent_since s s'))"
proof -
  have "msg_sender e \<in> fst ` set (sent_since s s')"
    if ok: "purchaseAreaWithData e purchase pa idxs ipfs link ip s = Inr s'"
      and k: "k \<in> set idxs" and own: "z_owner (ownership s ! unat k) = msg_sender e"
  proof -
    from ok obtain price s1 where
      v: "validatePurchases e purchase pa idxs (credit e s) = Inr (price, s1)"
      by (rule purchase_Inr)
    then obtain rtp rects where t: "check_tiling purchase pa idxs = Inr (rtp, rects)"
      by (rule validatePurchases_Inr)
    from k have "k \<in> fst ` set (group_runs (priced s (pieces_of pa idxs)))"
      by (simp add: group_runs_keys priced_keys validatePurchases_pieces(2) [OF t])
    then obtain g where g: "g \<in> set (group_runs (priced s (pieces_of pa idxs)))" and "fst g = k"
      by auto
    with own have "fst (pay s g) = msg_sender e" by (simp add: pay_def)
    moreover from g have "pay s g \<in> set (sent_since s s')"
      by (simp add: sent_since_def purchase_sent [OF ok])
    ultimately show ?thesis by (metis imageI)
  qed
  moreover have "paid_to a (sent_since s s') = total_price s (pieces_owned_by s a (pieces_of pa idxs))"
    if "purchaseAreaWithData e purchase pa idxs ipfs link ip s = Inr s'"
    using that by (rule purchase_paid_to)
  ultimately show ?thesis
    using purchase_sender [where e = e and b = b and purchase = purchase and pa = pa and idxs = idxs
      and ipfs = ipfs and link = link and ip = ip and s = s and err = err]
    by blast
qed

theorem no_self_purchase_restriction_witness:
  "z_owner (ownership genesis ! unat (0 :: uint256)) = msg_sender (env_of admin 20200000000000) \<and>
   \<not> isl self_purchase \<and>
   admin \<in> fst ` set (sent_since genesis (projr self_purchase)) \<and>
   pieces_owned_by genesis admin (pieces_of [0, 0, 1, 1] [0]) = pieces_of [0, 0, 1, 1] [0] \<and>
   paid_to admin (sent_since genesis (projr self_purchase)) = 20000000000000 \<and>
   purchaseAreaWithData ((env_of admin 20200000000000)\<lparr> msg_sender := alice \<rparr>)
     [0, 0, 1, 1] [0, 0, 1, 1] [0] ''hash'' ''url'' 1 genesis \<noteq> Inl NotOwner"
proof -
  note inst = no_self_purchase_restriction [where e = "env_of admin 20200000000000" and b = alice
      and purchase = "[0, 0, 1, 1]" and pa = "[0, 0, 1, 1]" and idxs = "[0]" and ipfs = "''hash''"
      and link = "''url''" and ip = 1 and s = genesis and err = NotOwner
      and s' = "projr self_purchase" and k = 0 and a = admin]
  have ok: "\<not> isl self_purchase" by (simp add: self_purchase_def eval_defs)
  then have 1: "purchaseAreaWithData (env_of admin 20200000000000)
      [0, 0, 1, 1] [0, 0, 1, 1] [0] ''hash'' ''url'' 1 genesis = Inr (projr self_purchase)"
    unfolding self_purchase_def by (rule sum.collapse(2) [symmetric])
  have 2: "z_owner (ownership genesis ! unat (0 :: uint256)) = msg_sender (env_of admin 20200000000000)"
    by (simp add: eval_defs)
  have 3: "msg_sender (env_of admin 20200000000000) = admin" by (simp add: env_of_def)
  have 4: "(0 :: uint256) \<in> set [0]" by simp
  from inst [THEN conjunct2, THEN conjunct2, rule_format, OF conjI [OF 1 conjI [OF 4 2]]]
  have 5: "admin \<in> fst ` set (sent_since genesis (projr self_purchase))" by (simp only: 3)
  have 7: "pieces_owned_by genesis admin (pieces_of [0, 0, 1, 1] [0]) = pieces_of [0, 0, 1, 1] [0]"
    by (simp add: pieces_owned_by_def pieces_of_def eval_defs)
  have 8: "total_price genesis (pieces_of [0, 0, 1, 1] [0]) = 20000000000000"
    by (simp add: total_price_def pieces_of_def piece_price_def eval_defs)
  from inst [THEN conjunct2, THEN conjunct1, rule_format, OF 1]
  have 9: "paid_to admin (sent_since genesis (projr self_purchase)) = 20000000000000"
    by (simp only: 7 8)
  from 1 have "purchaseAreaWithData (env_of admin 20200000000000)
      [0, 0, 1, 1] [0, 0, 1, 1] [0] ''hash'' ''url'' 1 genesis \<noteq> Inl NotOwner" by simp
  with inst [THEN conjunct1]
  have 6: "purchaseAreaWithData ((env_of admin 20200000000000)\<lparr> msg_sender := alice \<rparr>)
     [0, 0, 1, 1] [0, 0, 1, 1] [0] ''hash'' ''url'' 1 genesis \<noteq> Inl NotOwner" by simp
  from 2 ok 5 7 9 6 show ?thesis by blast
qed

end
